theory Spec2Isabelle
  imports Main "HOL-Library.Word"
begin

section \<open>JavaScript strings\<close>

text \<open>
  A JavaScript string is a sequence of 16-bit code units, so it is modelled as a list of
  16-bit words; \<open>js\<close> turns an ASCII literal into such a string. The functions of this
  section are the built-in string operations that server.js calls, written from their
  ECMAScript definitions: the white space class shared by the pattern escape \<^verbatim>\<open>\s\<close> and
  by \<^verbatim>\<open>String.prototype.trim\<close> (tab, line feed, vertical tab, form feed, carriage
  return, space, no-break space, the Unicode space separators, the line and paragraph
  separators and U+FEFF), \<^verbatim>\<open>indexOf\<close> and \<^verbatim>\<open>lastIndexOf\<close> with their result
  -1 for an absent pattern, and \<^verbatim>\<open>slice\<close> with its clamping of both indices.
\<close>

type_synonym jsstring = "16 word list"

definition js :: "string \<Rightarrow> jsstring" where
  "js s = map of_char s"

definition isWhiteSpace :: "16 word \<Rightarrow> bool" where
  "isWhiteSpace c \<longleftrightarrow>
     c = 0x09 \<or> c = 0x0A \<or> c = 0x0B \<or> c = 0x0C \<or> c = 0x0D \<or> c = 0x20 \<or> c = 0xA0 \<or>
     c = 0x1680 \<or> (0x2000 \<le> c \<and> c \<le> 0x200A) \<or> c = 0x2028 \<or> c = 0x2029 \<or>
     c = 0x202F \<or> c = 0x205F \<or> c = 0x3000 \<or> c = 0xFEFF"

definition trim :: "jsstring \<Rightarrow> jsstring" where
  "trim s = rev (dropWhile isWhiteSpace (rev (dropWhile isWhiteSpace s)))"

fun find_first :: "jsstring \<Rightarrow> jsstring \<Rightarrow> nat option" where
  "find_first [] pat = (if pat = [] then Some 0 else None)"
| "find_first (c # cs) pat =
     (if take (length pat) (c # cs) = pat then Some 0 else map_option Suc (find_first cs pat))"

fun find_last :: "jsstring \<Rightarrow> jsstring \<Rightarrow> nat option" where
  "find_last [] pat = (if pat = [] then Some 0 else None)"
| "find_last (c # cs) pat =
     (case find_last cs pat of
        Some i \<Rightarrow> Some (Suc i)
      | None \<Rightarrow> if take (length pat) (c # cs) = pat then Some 0 else None)"

definition indexOf :: "jsstring \<Rightarrow> jsstring \<Rightarrow> int" where
  "indexOf s pat = (case find_first s pat of None \<Rightarrow> - 1 | Some i \<Rightarrow> int i)"

definition lastIndexOf :: "jsstring \<Rightarrow> jsstring \<Rightarrow> int" where
  "lastIndexOf s pat = (case find_last s pat of None \<Rightarrow> - 1 | Some i \<Rightarrow> int i)"

definition slice_js :: "jsstring \<Rightarrow> int \<Rightarrow> int \<Rightarrow> jsstring" where
  "slice_js s start fin =
     (let len = int (length s);
          from = (if start < 0 then max (len + start) 0 else min start len);
          to = (if fin < 0 then max (len + fin) 0 else min fin len)
      in take (nat (to - from)) (drop (nat from) s))"

section \<open>Regular expressions\<close>

text \<open>
  The fragment of ECMAScript patterns that server.js uses: a single character class, a
  sequence, a greedy optional group, a greedy and a lazy repetition of a character class,
  and a capture group. \<open>rmatch\<close> is the backtracking matcher of the language definition
  in continuation-passing style: it matches a pattern at the head of the input and hands
  the rest of the input and the captured group to the continuation, and a failing
  continuation makes it try the next alternative in priority order (greedy: longest
  first; lazy: shortest first). \<open>regexp_exec\<close> is the search of a pattern without the
  global flag: the start positions 0, 1, ... up to the length of the input are tried in
  turn, and the first match wins. Its result is the capture of group 1 (None inside Some
  when the group took no part), or None when the pattern matches nowhere.
  Under the flag \<open>i\<close> an ASCII pattern character matches a code unit with the same upper
  case form; a code unit from 128 on is never canonicalised to an ASCII one, so
  \<open>toUpperAscii\<close> decides these comparisons.
\<close>

datatype regex =
    Chr "16 word \<Rightarrow> bool"
  | Seq regex regex
  | Opt regex
  | StarG "16 word \<Rightarrow> bool"
  | StarL "16 word \<Rightarrow> bool"
  | Group regex

fun rmatch :: "regex \<Rightarrow> jsstring \<Rightarrow> jsstring option \<Rightarrow>
    (jsstring \<Rightarrow> jsstring option \<Rightarrow> 'r option) \<Rightarrow> 'r option" where
  "rmatch (Chr P) s cap k = (case s of [] \<Rightarrow> None | c # cs \<Rightarrow> if P c then k cs cap else None)"
| "rmatch (Seq a b) s cap k = rmatch a s cap (\<lambda>s' cap'. rmatch b s' cap' k)"
| "rmatch (Opt a) s cap k = (case rmatch a s cap k of Some r \<Rightarrow> Some r | None \<Rightarrow> k s cap)"
| "rmatch (StarG P) s cap k =
     (case s of
        [] \<Rightarrow> k s cap
      | c # cs \<Rightarrow>
          if P c then (case rmatch (StarG P) cs cap k of Some r \<Rightarrow> Some r | None \<Rightarrow> k s cap)
          else k s cap)"
| "rmatch (StarL P) s cap k =
     (case k s cap of
        Some r \<Rightarrow> Some r
      | None \<Rightarrow> (case s of [] \<Rightarrow> None | c # cs \<Rightarrow> if P c then rmatch (StarL P) cs cap k else None))"
| "rmatch (Group a) s cap k =
     rmatch a s cap (\<lambda>s' _. k s' (Some (take (length s - length s') s)))"

fun regexp_exec :: "regex \<Rightarrow> jsstring \<Rightarrow> jsstring option option" where
  "regexp_exec r s =
     (case rmatch r s None (\<lambda>_ cap. Some cap) of
        Some cap \<Rightarrow> Some cap
      | None \<Rightarrow> (case s of [] \<Rightarrow> None | _ # cs \<Rightarrow> regexp_exec r cs))"

definition String_match :: "jsstring \<Rightarrow> regex \<Rightarrow> jsstring option option" where
  "String_match s r = regexp_exec r s"

definition toUpperAscii :: "16 word \<Rightarrow> 16 word" where
  "toUpperAscii c = (if 0x61 \<le> c \<and> c \<le> 0x7A then c - 0x20 else c)"

definition lit_i :: "char \<Rightarrow> 16 word \<Rightarrow> bool" where
  "lit_i p c \<longleftrightarrow> toUpperAscii c = toUpperAscii (of_char p)"

definition any_char :: "16 word \<Rightarrow> bool" where
  "any_char c \<longleftrightarrow> isWhiteSpace c \<or> \<not> isWhiteSpace c"

section \<open>extractJsonMaybe (server.js, lines 76 to 86)\<close>

text \<open>
  \<^verbatim>\<open>const fence = text.match(/```(?:json)?\s*([\s\S]*?)\s*```/i);\<close>
  The pattern is three backticks, an optional tag "json", white space, the lazily captured
  interior, white space and three backticks. \<open>truthy_group1\<close> is the test
  \<^verbatim>\<open>fence && fence[1]\<close>: the match exists and its group is a non-empty string.
  \<open>brace_scan\<close> is lines 80 to 85. The argument of \<open>extractJsonMaybe\<close> is a string at its only
  call site (line 140), and the empty string is the only falsy string.
\<close>

definition backticks :: regex where
  "backticks = Seq (Chr (lit_i CHR 0x60)) (Seq (Chr (lit_i CHR 0x60)) (Chr (lit_i CHR 0x60)))"

definition json_tag :: regex where
  "json_tag = Seq (Chr (lit_i CHR ''j'')) (Seq (Chr (lit_i CHR ''s''))
                (Seq (Chr (lit_i CHR ''o'')) (Chr (lit_i CHR ''n''))))"

definition fence_regex :: regex where
  "fence_regex =
     Seq backticks (Seq (Opt json_tag) (Seq (StarG isWhiteSpace)
       (Seq (Group (StarL any_char)) (Seq (StarG isWhiteSpace) backticks))))"

definition truthy_group1 :: "jsstring option option \<Rightarrow> jsstring option" where
  "truthy_group1 m = (case m of Some (Some g) \<Rightarrow> if g \<noteq> [] then Some g else None | _ \<Rightarrow> None)"

definition brace_scan :: "jsstring \<Rightarrow> jsstring option" where
  "brace_scan text =
     (let first = indexOf text (js ''{''); lst = lastIndexOf text (js ''}'')
      in if first \<noteq> - 1 \<and> lst \<noteq> - 1 \<and> lst > first
         then Some (trim (slice_js text first (lst + 1))) else None)"

definition extractJsonMaybe :: "jsstring \<Rightarrow> jsstring option" where
  "extractJsonMaybe text =
     (if text = [] then None
      else case truthy_group1 (String_match text fence_regex) of
        Some g \<Rightarrow> Some (trim g)
      | None \<Rightarrow> brace_scan text)"

section \<open>JSON values and JSON.parse\<close>

text \<open>
  A parsed JSON value. A number keeps its literal: it stands for the Number that the
  literal denotes, and the rounding to a double is not modelled. An object is the list of
  its own properties in the order in which JavaScript enumerates them.
\<close>

datatype json =
    JNull
  | JBool bool
  | JNumber jsstring
  | JString jsstring
  | JArray "json list"
  | JObject "(jsstring \<times> json) list"

text \<open>
  \<^verbatim>\<open>JSON.parse\<close> (line 143, and \<^verbatim>\<open>res.json()\<close> at line 119) follows the JSON
  grammar: white space is tab, line feed, carriage return and space; a string is closed by
  an unescaped quote, admits the escapes of the grammar and no code unit below 0x20; a
  number is an optional minus, an integer part without a leading zero, an optional
  fraction and an optional exponent. \<open>tokenize\<close> turns the text into tokens, or fails.
\<close>

datatype token =
    TLBrace | TRBrace | TLBracket | TRBracket | TColon | TComma
  | TString jsstring | TNumber jsstring | TTrue | TFalse | TNull

definition isJSONWhiteSpace :: "16 word \<Rightarrow> bool" where
  "isJSONWhiteSpace c \<longleftrightarrow> c = 0x09 \<or> c = 0x0A \<or> c = 0x0D \<or> c = 0x20"

definition isDigit :: "16 word \<Rightarrow> bool" where
  "isDigit c \<longleftrightarrow> 0x30 \<le> c \<and> c \<le> 0x39"

definition hexValue :: "16 word \<Rightarrow> 16 word option" where
  "hexValue c =
     (if 0x30 \<le> c \<and> c \<le> 0x39 then Some (c - 0x30)
      else if 0x41 \<le> c \<and> c \<le> 0x46 then Some (c - 0x41 + 10)
      else if 0x61 \<le> c \<and> c \<le> 0x66 then Some (c - 0x61 + 10)
      else None)"

definition hex4 :: "jsstring \<Rightarrow> 16 word option" where
  "hex4 s =
     (case s of
        a # b # c # d # _ \<Rightarrow>
          (case (hexValue a, hexValue b, hexValue c, hexValue d) of
             (Some h1, Some h2, Some h3, Some h4) \<Rightarrow> Some (((h1 * 16 + h2) * 16 + h3) * 16 + h4)
           | _ \<Rightarrow> None)
      | _ \<Rightarrow> None)"

definition unescape :: "16 word \<Rightarrow> 16 word option" where
  "unescape e =
     (if e = 0x22 then Some 0x22
      else if e = 0x5C then Some 0x5C
      else if e = 0x2F then Some 0x2F
      else if e = 0x62 then Some 0x08
      else if e = 0x66 then Some 0x0C
      else if e = 0x6E then Some 0x0A
      else if e = 0x72 then Some 0x0D
      else if e = 0x74 then Some 0x09
      else None)"

fun lex_string :: "jsstring \<Rightarrow> jsstring \<Rightarrow> (jsstring \<times> jsstring) option" where
  "lex_string [] acc = None"
| "lex_string (c # cs) acc =
     (if c = 0x22 then Some (acc, cs)
      else if c = 0x5C then
        (case cs of
           [] \<Rightarrow> None
         | e # es \<Rightarrow>
             if e = 0x75 then
               (case hex4 es of None \<Rightarrow> None | Some u \<Rightarrow> lex_string (drop 4 es) (acc @ [u]))
             else
               (case unescape e of None \<Rightarrow> None | Some x \<Rightarrow> lex_string es (acc @ [x])))
      else if c < 0x20 then None
      else lex_string cs (acc @ [c]))"

definition digits_length :: "jsstring \<Rightarrow> nat" where
  "digits_length s = length (takeWhile isDigit s)"

definition int_length :: "jsstring \<Rightarrow> nat" where
  "int_length s =
     (case s of
        [] \<Rightarrow> 0
      | c # cs \<Rightarrow> if c = 0x30 then 1 else if isDigit c then 1 + digits_length cs else 0)"

definition frac_length :: "jsstring \<Rightarrow> nat" where
  "frac_length s =
     (case s of
        c # cs \<Rightarrow> if c = 0x2E \<and> 0 < digits_length cs then 1 + digits_length cs else 0
      | [] \<Rightarrow> 0)"

definition exp_length :: "jsstring \<Rightarrow> nat" where
  "exp_length s =
     (case s of
        c # cs \<Rightarrow>
          if c = 0x65 \<or> c = 0x45 then
            (case cs of
               d # ds \<Rightarrow>
                 if d = 0x2B \<or> d = 0x2D
                 then (if 0 < digits_length ds then 2 + digits_length ds else 0)
                 else (if 0 < digits_length cs then 1 + digits_length cs else 0)
             | [] \<Rightarrow> 0)
          else 0
      | [] \<Rightarrow> 0)"

definition number_length :: "jsstring \<Rightarrow> nat" where
  "number_length s =
     (let sign = (case s of c # _ \<Rightarrow> if c = 0x2D then 1 else 0 | [] \<Rightarrow> 0);
          i = int_length (drop sign s)
      in if i = 0 then 0
         else let f = frac_length (drop (sign + i) s);
                  e = exp_length (drop (sign + i + f) s)
              in sign + i + f + e)"

function tokenize :: "jsstring \<Rightarrow> token list option" where
  "tokenize [] = Some []"
| "tokenize (c # cs) =
     (if isJSONWhiteSpace c then tokenize cs
      else if c = 0x7B then map_option (Cons TLBrace) (tokenize cs)
      else if c = 0x7D then map_option (Cons TRBrace) (tokenize cs)
      else if c = 0x5B then map_option (Cons TLBracket) (tokenize cs)
      else if c = 0x5D then map_option (Cons TRBracket) (tokenize cs)
      else if c = 0x3A then map_option (Cons TColon) (tokenize cs)
      else if c = 0x2C then map_option (Cons TComma) (tokenize cs)
      else if c = 0x22 then
        (case lex_string cs [] of
           None \<Rightarrow> None
         | Some (str, rest) \<Rightarrow> map_option (Cons (TString str)) (tokenize rest))
      else if take 4 (c # cs) = js ''true'' then map_option (Cons TTrue) (tokenize (drop 3 cs))
      else if take 5 (c # cs) = js ''false'' then map_option (Cons TFalse) (tokenize (drop 4 cs))
      else if take 4 (c # cs) = js ''null'' then map_option (Cons TNull) (tokenize (drop 3 cs))
      else
        (let n = number_length (c # cs)
         in if n = 0 then None
            else map_option (Cons (TNumber (take n (c # cs)))) (tokenize (drop (n - 1) cs))))"
  by pat_completeness auto

text \<open>
  A property is created in the object under construction as JSON.parse does it: a key that
  is already there keeps its place and takes the new value; a new key that is an array
  index (a canonical decimal numeral up to 4294967294) goes among the array indices in
  ascending order, which come first; any other new key goes last.
\<close>

definition decimal_value :: "jsstring \<Rightarrow> nat" where
  "decimal_value s = foldl (\<lambda>n c. 10 * n + unat (c - 0x30)) 0 s"

definition array_index :: "jsstring \<Rightarrow> nat option" where
  "array_index k =
     (if k \<noteq> [] \<and> list_all isDigit k \<and> (k = [0x30] \<or> hd k \<noteq> 0x30) \<and> decimal_value k \<le> 4294967294
      then Some (decimal_value k) else None)"

definition index_below :: "nat \<Rightarrow> jsstring \<times> json \<Rightarrow> bool" where
  "index_below n e = (case array_index (fst e) of Some m \<Rightarrow> m < n | None \<Rightarrow> False)"

definition obj_put :: "jsstring \<Rightarrow> json \<Rightarrow> (jsstring \<times> json) list \<Rightarrow> (jsstring \<times> json) list" where
  "obj_put k v ms =
     (if k \<in> fst ` set ms then map (\<lambda>e. if fst e = k then (k, v) else e) ms
      else case array_index k of
             Some n \<Rightarrow> takeWhile (index_below n) ms @ [(k, v)] @ dropWhile (index_below n) ms
           | None \<Rightarrow> ms @ [(k, v)])"

text \<open>
  The parser is a pushdown automaton over the tokens. A frame is an array or an object
  left open around the value being read (with the key that the value belongs to); the
  state tells what may come next. \<open>JSON_parse\<close> returns None where JSON.parse throws a
  SyntaxError.
\<close>

datatype frame =
    FArray "json list"
  | FObject "(jsstring \<times> json) list" jsstring

datatype pstate =
    SValue "frame list"
  | SArrayStart "frame list"
  | SObjectStart "frame list"
  | SKey "(jsstring \<times> json) list" "frame list"
  | SColon "(jsstring \<times> json) list" jsstring "frame list"
  | SArrayNext "json list" "frame list"
  | SObjectNext "(jsstring \<times> json) list" "frame list"
  | SDone json

fun value_done :: "json \<Rightarrow> frame list \<Rightarrow> pstate" where
  "value_done v [] = SDone v"
| "value_done v (FArray xs # stk) = SArrayNext (xs @ [v]) stk"
| "value_done v (FObject ms k # stk) = SObjectNext (obj_put k v ms) stk"

fun accept_value :: "frame list \<Rightarrow> token \<Rightarrow> pstate option" where
  "accept_value stk TLBracket = Some (SArrayStart stk)"
| "accept_value stk TLBrace = Some (SObjectStart stk)"
| "accept_value stk (TString s) = Some (value_done (JString s) stk)"
| "accept_value stk (TNumber n) = Some (value_done (JNumber n) stk)"
| "accept_value stk TTrue = Some (value_done (JBool True) stk)"
| "accept_value stk TFalse = Some (value_done (JBool False) stk)"
| "accept_value stk TNull = Some (value_done JNull stk)"
| "accept_value stk _ = None"

fun pstep :: "pstate \<Rightarrow> token \<Rightarrow> pstate option" where
  "pstep (SValue stk) t = accept_value stk t"
| "pstep (SArrayStart stk) t =
     (if t = TRBracket then Some (value_done (JArray []) stk) else accept_value (FArray [] # stk) t)"
| "pstep (SObjectStart stk) t =
     (case t of
        TRBrace \<Rightarrow> Some (value_done (JObject []) stk)
      | TString k \<Rightarrow> Some (SColon [] k stk)
      | _ \<Rightarrow> None)"
| "pstep (SKey ms stk) t = (case t of TString k \<Rightarrow> Some (SColon ms k stk) | _ \<Rightarrow> None)"
| "pstep (SColon ms k stk) t = (if t = TColon then Some (SValue (FObject ms k # stk)) else None)"
| "pstep (SArrayNext xs stk) t =
     (case t of
        TComma \<Rightarrow> Some (SValue (FArray xs # stk))
      | TRBracket \<Rightarrow> Some (value_done (JArray xs) stk)
      | _ \<Rightarrow> None)"
| "pstep (SObjectNext ms stk) t =
     (case t of
        TComma \<Rightarrow> Some (SKey ms stk)
      | TRBrace \<Rightarrow> Some (value_done (JObject ms) stk)
      | _ \<Rightarrow> None)"
| "pstep (SDone v) t = None"

fun prun :: "pstate \<Rightarrow> token list \<Rightarrow> json option" where
  "prun st [] = (case st of SDone v \<Rightarrow> Some v | _ \<Rightarrow> None)"
| "prun st (t # ts) = (case pstep st t of None \<Rightarrow> None | Some st' \<Rightarrow> prun st' ts)"

definition JSON_parse :: "jsstring \<Rightarrow> json option" where
  "JSON_parse text = (case tokenize text of None \<Rightarrow> None | Some ts \<Rightarrow> prun (SValue []) ts)"

section \<open>The runtime\<close>

text \<open>
  What server.js takes from its environment is a parameter of the model: the answer of the
  network to a request (\<^verbatim>\<open>fetch\<close> rejects with a message, which covers the abort after
  30 seconds, or responds with a status and a body that can be read or fails to be read),
  the decimal form of a Number in a string and in JSON text, and the messages of the errors
  that the engine itself throws. An error is modelled by its message, the only part of it
  that server.js reads.
\<close>

datatype js_error = Error (message: jsstring)

datatype type_error = NullProperty | NotAFunction | NotPrimitive

record fetch_request =
  url :: jsstring
  http_method :: jsstring
  content_type :: jsstring
  body :: jsstring

datatype fetch_body = BodyText jsstring | BodyError jsstring

datatype fetch_outcome = Rejected jsstring | Responded nat fetch_body

record runtime =
  fetch :: "fetch_request \<Rightarrow> fetch_outcome"
  number_to_string :: "jsstring \<Rightarrow> jsstring"
  number_to_json :: "jsstring \<Rightarrow> jsstring"
  syntax_error_message :: "jsstring \<Rightarrow> jsstring"
  type_error_message :: "type_error \<Rightarrow> jsstring"

section \<open>String conversion and JSON.stringify\<close>

text \<open>
  \<^verbatim>\<open>Array.prototype.join\<close> puts the separator between the string forms of the elements,
  where null and undefined count as the empty string. The string form of an array is its
  join with a comma, that of an object is "[object Object]" unless the object has a
  property "toString" of its own, which no JSON value makes callable, so that the
  conversion throws a TypeError. \<open>sequence_sum\<close> stops at the first error, from left to
  right.
\<close>

fun join :: "jsstring \<Rightarrow> jsstring list \<Rightarrow> jsstring" where
  "join sep [] = []"
| "join sep [x] = x"
| "join sep (x # y # ys) = x @ sep @ join sep (y # ys)"

fun sequence_sum :: "('e + 'a) list \<Rightarrow> 'e + 'a list" where
  "sequence_sum [] = Inr []"
| "sequence_sum (x # xs) =
     (case x of
        Inl e \<Rightarrow> Inl e
      | Inr a \<Rightarrow> (case sequence_sum xs of Inl e \<Rightarrow> Inl e | Inr as \<Rightarrow> Inr (a # as)))"

fun ToString :: "runtime \<Rightarrow> json \<Rightarrow> js_error + jsstring" where
  "ToString rt JNull = Inr (js ''null'')"
| "ToString rt (JBool b) = Inr (if b then js ''true'' else js ''false'')"
| "ToString rt (JNumber n) = Inr (number_to_string rt n)"
| "ToString rt (JString s) = Inr s"
| "ToString rt (JArray xs) =
     (case sequence_sum (map (\<lambda>x. if x = JNull then Inr [] else ToString rt x) xs) of
        Inl e \<Rightarrow> Inl e
      | Inr ss \<Rightarrow> Inr (join (js '','') ss))"
| "ToString rt (JObject ms) =
     (if js ''toString'' \<in> fst ` set ms then Inl (Error (type_error_message rt NotPrimitive))
      else Inr (js ''[object Object]''))"

text \<open>
  \<^verbatim>\<open>JSON.stringify\<close> without indentation: a string is quoted with the short escapes,
  with a \<^verbatim>\<open>\u\<close> escape for the other code units below 0x20 and for a surrogate that is
  not part of a pair.
\<close>

definition hexDigit :: "16 word \<Rightarrow> 16 word" where
  "hexDigit n = (if n < 10 then 0x30 + n else 0x61 + (n - 10))"

definition UnicodeEscape :: "16 word \<Rightarrow> jsstring" where
  "UnicodeEscape c =
     [0x5C, 0x75, hexDigit (c div 4096), hexDigit ((c div 256) mod 16),
      hexDigit ((c div 16) mod 16), hexDigit (c mod 16)]"

definition isLeadingSurrogate :: "16 word \<Rightarrow> bool" where
  "isLeadingSurrogate c \<longleftrightarrow> 0xD800 \<le> c \<and> c \<le> 0xDBFF"

definition isTrailingSurrogate :: "16 word \<Rightarrow> bool" where
  "isTrailingSurrogate c \<longleftrightarrow> 0xDC00 \<le> c \<and> c \<le> 0xDFFF"

fun quote_units :: "jsstring \<Rightarrow> jsstring" where
  "quote_units [] = []"
| "quote_units (c # cs) =
     (if c = 0x08 then [0x5C, 0x62] @ quote_units cs
      else if c = 0x09 then [0x5C, 0x74] @ quote_units cs
      else if c = 0x0A then [0x5C, 0x6E] @ quote_units cs
      else if c = 0x0C then [0x5C, 0x66] @ quote_units cs
      else if c = 0x0D then [0x5C, 0x72] @ quote_units cs
      else if c = 0x22 then [0x5C, 0x22] @ quote_units cs
      else if c = 0x5C then [0x5C, 0x5C] @ quote_units cs
      else if c < 0x20 then UnicodeEscape c @ quote_units cs
      else if isLeadingSurrogate c then
        (case cs of
           d # ds \<Rightarrow>
             if isTrailingSurrogate d then c # d # quote_units ds
             else UnicodeEscape c @ quote_units cs
         | [] \<Rightarrow> UnicodeEscape c)
      else if isTrailingSurrogate c then UnicodeEscape c @ quote_units cs
      else c # quote_units cs)"

definition QuoteJSONString :: "jsstring \<Rightarrow> jsstring" where
  "QuoteJSONString s = [0x22] @ quote_units s @ [0x22]"

fun JSON_stringify :: "runtime \<Rightarrow> json \<Rightarrow> jsstring" where
  "JSON_stringify rt JNull = js ''null''"
| "JSON_stringify rt (JBool b) = (if b then js ''true'' else js ''false'')"
| "JSON_stringify rt (JNumber n) = number_to_json rt n"
| "JSON_stringify rt (JString s) = QuoteJSONString s"
| "JSON_stringify rt (JArray xs) = js ''['' @ join (js '','') (map (JSON_stringify rt) xs) @ js '']''"
| "JSON_stringify rt (JObject ms) =
     js ''{'' @ join (js '','')
        (map (\<lambda>m. QuoteJSONString (fst m) @ js '':'' @ JSON_stringify rt (snd m)) ms) @ js ''}''"

section \<open>callGemini (server.js, lines 23 to 129)\<close>

text \<open>
  The fixed instructions of lines 23 to 70 (a template literal that starts and ends with a
  line feed) and the prompt of lines 72 to 74.
\<close>

definition SYSTEM_INSTRUCTIONS :: jsstring where
  \<open>SYSTEM_INSTRUCTIONS = [0x0A] @ concat (map (\<lambda>l. js l @ [0x0A])
     [''You are a precise document analyst. Output one JSON object only. No prose. No code fences.'',
      '''',
      ''Detect "document_type" in "receipt", "invoice", or "other".'',
      '''',
      ''If "document_type" is "receipt" or "invoice", return this object. Missing data becomes empty string or empty array.'',
      '''',
      ''{'',
      ''  "document_type": "receipt",'',
      ''  "vendor_name": "",'',
      ''  "vendor_address": "",'',
      ''  "vendor_phone": "",'',
      ''  "date": "",'',
      ''  "time": "",'',
      ''  "currency": "",'',
      ''  "invoice_number": "",'',
      ''  "order_number": "",'',
      ''  "payment_method": "",'',
      ''  "last4": "",'',
      ''  "items": ['',
      ''    {"name": "", "qty": "", "unit_price": "", "line_total": "", "sku": ""}'',
      ''  ],'',
      ''  "subtotal": "",'',
      ''  "taxes": [ {"name": "", "rate": "", "amount": ""} ],'',
      ''  "discounts": [ {"name": "", "amount": ""} ],'',
      ''  "fees": [ {"name": "", "amount": ""} ],'',
      ''  "tips": "",'',
      ''  "total": "",'',
      ''  "notes": "",'',
      ''  "confidence": {"total": 0, "items": 0}'',
      ''}'',
      '''',
      ''If the file is not a receipt or invoice, return:'',
      ''{'',
      ''  "document_type":"other",'',
      ''  "title":"",'',
      ''  "summary":"",'',
      ''  "notes":""'',
      ''}'',
      '''',
      ''Normalization rules:'',
      ''1) All money values are plain strings using a dot as decimal separator with two decimals when possible'',
      ''2) "qty" is a plain string and prefer an integer when possible'',
      ''3) If multiple taxes exist, fill the "taxes" array with one entry per tax, and put the rate number only in "rate" without the percent sign'',
      ''4) Compute "subtotal" as the sum of "line_total" when possible'',
      ''5) Compute a candidate grand total as subtotal plus all tax and fee and tip amounts minus all discounts'',
      ''6) If the printed total and your computed total differ by more than one percent, keep the printed total in "total" and add a one line warning in "notes"''])\<close>

definition buildUserPrompt :: "jsstring \<Rightarrow> jsstring" where
  "buildUserPrompt filename =
     js ''Analyze the uploaded file named '' @ filename @
     js ''. Extract data per the schema. Respond in pure JSON only. No markdown. No backticks.''"

text \<open>
  Lines 120 to 122:
  \<^verbatim>\<open>data?.candidates?.[0]?.content?.parts?.map(p => p.text).join("\n") || JSON.stringify(data)\<close>.
  A value that may be undefined is an option. \<open>optional\<close> is the operator \<^verbatim>\<open>?.\<close>: undefined
  when the value on its left is undefined or null. None of the names read here is a
  property of a built-in prototype, so only an object has them; index 0 is also read from an
  array and from a string. Calling \<^verbatim>\<open>map\<close> on a value that is not an array throws a
  TypeError, and so does reading \<^verbatim>\<open>text\<close> from null. A chain cut short by \<^verbatim>\<open>?.\<close>
  yields undefined for the whole of it, the join included.
\<close>

definition get_property :: "json \<Rightarrow> jsstring \<Rightarrow> json option" where
  "get_property v k = (case v of JObject ms \<Rightarrow> map_of ms k | _ \<Rightarrow> None)"

definition get_index0 :: "json \<Rightarrow> json option" where
  "get_index0 v =
     (case v of
        JArray xs \<Rightarrow> (case xs of [] \<Rightarrow> None | x # _ \<Rightarrow> Some x)
      | JString s \<Rightarrow> (case s of [] \<Rightarrow> None | c # _ \<Rightarrow> Some (JString [c]))
      | JObject ms \<Rightarrow> map_of ms (js ''0'')
      | _ \<Rightarrow> None)"

definition optional :: "json option \<Rightarrow> (json \<Rightarrow> json option) \<Rightarrow> json option" where
  "optional v f = (case v of None \<Rightarrow> None | Some x \<Rightarrow> if x = JNull then None else f x)"

definition candidate_parts :: "json \<Rightarrow> json option" where
  "candidate_parts data =
     optional (optional (optional (optional (Some data)
       (\<lambda>d. get_property d (js ''candidates''))) get_index0)
       (\<lambda>c. get_property c (js ''content'')))
       (\<lambda>c. get_property c (js ''parts''))"

definition map_text :: "runtime \<Rightarrow> json list \<Rightarrow> js_error + json option list" where
  "map_text rt ps =
     sequence_sum (map (\<lambda>p. if p = JNull then Inl (Error (type_error_message rt NullProperty))
                            else Inr (get_property p (js ''text''))) ps)"

definition join_item :: "runtime \<Rightarrow> json option \<Rightarrow> js_error + jsstring" where
  "join_item rt x = (case x of None \<Rightarrow> Inr [] | Some v \<Rightarrow> if v = JNull then Inr [] else ToString rt v)"

definition joined_text :: "runtime \<Rightarrow> json \<Rightarrow> js_error + jsstring option" where
  "joined_text rt data =
     (case candidate_parts data of
        None \<Rightarrow> Inr None
      | Some p \<Rightarrow>
          if p = JNull then Inr None
          else (case p of
                  JArray ps \<Rightarrow>
                    (case map_text rt ps of
                       Inl e \<Rightarrow> Inl e
                     | Inr ts \<Rightarrow>
                         (case sequence_sum (map (join_item rt) ts) of
                            Inl e \<Rightarrow> Inl e
                          | Inr ss \<Rightarrow> Inr (Some (join [0x0A] ss))))
                | _ \<Rightarrow> Inl (Error (type_error_message rt NotAFunction))))"

definition reply_text :: "runtime \<Rightarrow> json \<Rightarrow> js_error + jsstring" where
  "reply_text rt data =
     (case joined_text rt data of
        Inl e \<Rightarrow> Inl e
      | Inr j \<Rightarrow>
          (case j of
             Some s \<Rightarrow> if s \<noteq> [] then Inr s else Inr (JSON_stringify rt data)
           | None \<Rightarrow> Inr (JSON_stringify rt data)))"

text \<open>
  \<^verbatim>\<open>buffer.toString("base64")\<close> (line 136), the decimal form of the status in the message
  of line 117, and the request of lines 90 to 114. The abort signal is part of the answer of
  the network.
\<close>

definition base64Char :: "nat \<Rightarrow> 16 word" where
  "base64Char n =
     (if n < 26 then 0x41 + of_nat n
      else if n < 52 then 0x61 + of_nat (n - 26)
      else if n < 62 then 0x30 + of_nat (n - 52)
      else if n = 62 then 0x2B else 0x2F)"

fun toBase64 :: "8 word list \<Rightarrow> jsstring" where
  "toBase64 [] = []"
| "toBase64 [a] =
     [base64Char (unat a div 4), base64Char ((unat a mod 4) * 16), 0x3D, 0x3D]"
| "toBase64 [a, b] =
     [base64Char (unat a div 4), base64Char ((unat a mod 4) * 16 + unat b div 16),
      base64Char ((unat b mod 16) * 4), 0x3D]"
| "toBase64 (a # b # c # r) =
     [base64Char (unat a div 4), base64Char ((unat a mod 4) * 16 + unat b div 16),
      base64Char ((unat b mod 16) * 4 + unat c div 64), base64Char (unat c mod 64)] @ toBase64 r"

fun decimal :: "nat \<Rightarrow> jsstring" where
  "decimal n = (if n < 10 then [0x30 + of_nat n] else decimal (n div 10) @ [0x30 + of_nat (n mod 10)])"

definition request_for :: "runtime \<Rightarrow> jsstring \<Rightarrow> jsstring \<Rightarrow> jsstring \<Rightarrow> jsstring \<Rightarrow> fetch_request" where
  "request_for rt GOOGLE_API_KEY base64 mime filename =
     \<lparr> url = js ''https://generativelanguage.googleapis.com/v1beta/models/gemini-1.5-flash-latest:generateContent?key=''
               @ GOOGLE_API_KEY,
       http_method = js ''POST'',
       content_type = js ''application/json'',
       body = JSON_stringify rt
         (JObject
            [(js ''contents'', JArray
               [JObject
                  [(js ''role'', JString (js ''user'')),
                   (js ''parts'', JArray
                      [JObject [(js ''text'', JString SYSTEM_INSTRUCTIONS)],
                       JObject [(js ''text'', JString (buildUserPrompt filename))],
                       JObject [(js ''inline_data'', JObject
                          [(js ''mime_type'', JString mime), (js ''data'', JString base64)])]])]]),
             (js ''generationConfig'', JObject [(js ''temperature'', JNumber (js ''0.2''))])]) \<rparr>"

definition response_ok :: "nat \<Rightarrow> bool" where
  "response_ok status \<longleftrightarrow> 200 \<le> status \<and> status \<le> 299"

text \<open>
  \<open>fetch_text\<close> is the body of the try block (lines 109 to 123): its result is the reply
  text, or the error thrown inside the block. \<open>callGemini\<close> returns its result together with
  the requests that it sent. The check of line 89 stands before the try block, so its error
  is not wrapped; every error thrown inside the block is wrapped by line 125.
\<close>

definition fetch_text :: "runtime \<Rightarrow> fetch_request \<Rightarrow> js_error + jsstring" where
  "fetch_text rt req =
     (case fetch rt req of
        Rejected m \<Rightarrow> Inl (Error m)
      | Responded status b \<Rightarrow>
          if \<not> response_ok status then
            (case b of
               BodyError m \<Rightarrow> Inl (Error m)
             | BodyText t \<Rightarrow> Inl (Error (js ''Gemini HTTP '' @ decimal status @ js '': '' @ t)))
          else
            (case b of
               BodyError m \<Rightarrow> Inl (Error m)
             | BodyText t \<Rightarrow>
                 (case JSON_parse t of
                    None \<Rightarrow> Inl (Error (syntax_error_message rt t))
                  | Some data \<Rightarrow> reply_text rt data)))"

definition callGemini ::
  "runtime \<Rightarrow> jsstring \<Rightarrow> jsstring \<Rightarrow> jsstring \<Rightarrow> jsstring \<Rightarrow> (js_error + jsstring) \<times> fetch_request list" where
  "callGemini rt GOOGLE_API_KEY base64 mime filename =
     (if GOOGLE_API_KEY = [] then (Inl (Error (js ''Missing GOOGLE_API_KEY'')), [])
      else
        (let req = request_for rt GOOGLE_API_KEY base64 mime filename
         in case fetch_text rt req of
              Inl e \<Rightarrow> (Inl (Error (js ''Gemini fetch failed: '' @ message e)), [req])
            | Inr text \<Rightarrow> (Inr text, [req])))"

section \<open>The handler of /analyze (server.js, lines 131 to 153)\<close>

text \<open>
  The request carries the uploaded file or none. The response is its status and the value
  passed to \<^verbatim>\<open>res.json\<close>; the handler is returned together with the requests sent to the
  inference service. \<open>parse_input\<close> is \<^verbatim>\<open>cleaned || rawText\<close> and \<open>parsed_reply\<close> is lines
  140 to 146. Line 150 writes the error to the console and has no part in the response.
\<close>

record uploaded_file =
  originalname :: jsstring
  mimetype :: jsstring
  buffer :: "8 word list"

record http_request =
  req_file :: "uploaded_file option"

datatype http_response = HttpResponse nat json

definition fallback_document :: "jsstring \<Rightarrow> json" where
  "fallback_document rawText =
     JObject [(js ''document_type'', JString (js ''other'')), (js ''title'', JString (js ''Analysis'')),
              (js ''summary'', JString []), (js ''notes'', JString rawText)]"

definition parse_input :: "jsstring \<Rightarrow> jsstring" where
  "parse_input rawText =
     (case extractJsonMaybe rawText of
        Some cleaned \<Rightarrow> if cleaned \<noteq> [] then cleaned else rawText
      | None \<Rightarrow> rawText)"

definition parsed_reply :: "jsstring \<Rightarrow> json" where
  "parsed_reply rawText =
     (case JSON_parse (parse_input rawText) of
        Some parsed \<Rightarrow> parsed
      | None \<Rightarrow> fallback_document rawText)"

definition analyze :: "runtime \<Rightarrow> jsstring \<Rightarrow> http_request \<Rightarrow> http_response \<times> fetch_request list" where
  "analyze rt GOOGLE_API_KEY req =
     (case req_file req of
        None \<Rightarrow> (HttpResponse 400 (JObject [(js ''error'', JString (js ''No file uploaded''))]), [])
      | Some f \<Rightarrow>
          (let base64 = toBase64 (buffer f)
           in case callGemini rt GOOGLE_API_KEY base64 (mimetype f) (originalname f) of
                (Inl err, calls) \<Rightarrow>
                  (HttpResponse 500
                     (JObject [(js ''error'',
                        JString (if message err \<noteq> [] then message err else js ''Server error''))]),
                   calls)
              | (Inr rawText, calls) \<Rightarrow>
                  (HttpResponse 200 (JObject [(js ''ok'', JBool True), (js ''data'', parsed_reply rawText)]),
                   calls)))"

section \<open>Notions used to state the properties\<close>

text \<open>
  The first fenced block of a text: the first occurrence of three backticks opens it, an
  optional tag "json" (in any case) follows, and the next occurrence of three backticks
  closes it; the interior is what lies between. \<open>first_fence_interior\<close> is None when the
  text has no such block.
\<close>

definition fence_mark :: jsstring where
  "fence_mark = js [CHR 0x60, CHR 0x60, CHR 0x60]"

definition has_json_tag :: "jsstring \<Rightarrow> bool" where
  "has_json_tag s \<longleftrightarrow> 4 \<le> length s \<and> map toUpperAscii (take 4 s) = js ''JSON''"

definition strip_json_tag :: "jsstring \<Rightarrow> jsstring" where
  "strip_json_tag s = (if has_json_tag s then drop 4 s else s)"

definition first_fence_interior :: "jsstring \<Rightarrow> jsstring option" where
  "first_fence_interior text =
     (case find_first text fence_mark of
        None \<Rightarrow> None
      | Some i \<Rightarrow>
          (let inner = strip_json_tag (drop 3 (drop i text))
           in case find_first inner fence_mark of
                None \<Rightarrow> None
              | Some q \<Rightarrow> Some (take q inner)))"

text \<open>
  The index of the first and of the last occurrence of a code unit in a string.
\<close>

definition is_first_index :: "jsstring \<Rightarrow> 16 word \<Rightarrow> nat \<Rightarrow> bool" where
  "is_first_index s c i \<longleftrightarrow> i < length s \<and> s ! i = c \<and> (\<forall>k<i. s ! k \<noteq> c)"

definition is_last_index :: "jsstring \<Rightarrow> 16 word \<Rightarrow> nat \<Rightarrow> bool" where
  "is_last_index s c j \<longleftrightarrow> j < length s \<and> s ! j = c \<and> (\<forall>k<length s. j < k \<longrightarrow> s ! k \<noteq> c)"

text \<open>
  The reply text as the specification words it: the text segments of the first
  candidate's content parts are the texts of the parts that have one; they are joined by
  line feeds, and when there is none the result is the serialised response.
  \<open>plain_part\<close> and \<open>part_text\<close> describe what the code does instead: a part that is not
  null and whose text is a string or absent contributes its text, or the empty string.
\<close>

definition nullish :: "json option \<Rightarrow> bool" where
  "nullish v \<longleftrightarrow> v = None \<or> v = Some JNull"

definition text_segments :: "json list \<Rightarrow> jsstring list" where
  "text_segments ps =
     concat (map (\<lambda>p. case get_property p (js ''text'') of Some (JString t) \<Rightarrow> [t] | _ \<Rightarrow> []) ps)"

definition spec_reply_text :: "runtime \<Rightarrow> json \<Rightarrow> jsstring" where
  "spec_reply_text rt data =
     (case candidate_parts data of
        Some (JArray ps) \<Rightarrow>
          if text_segments ps \<noteq> [] then join [0x0A] (text_segments ps) else JSON_stringify rt data
      | _ \<Rightarrow> JSON_stringify rt data)"

definition plain_part :: "json \<Rightarrow> bool" where
  "plain_part p \<longleftrightarrow>
     p \<noteq> JNull \<and> (case get_property p (js ''text'') of None \<Rightarrow> True | Some (JString _) \<Rightarrow> True | _ \<Rightarrow> False)"

definition part_text :: "json \<Rightarrow> jsstring" where
  "part_text p = (case get_property p (js ''text'') of Some (JString t) \<Rightarrow> t | _ \<Rightarrow> [])"

section \<open>Concrete inputs\<close>

text \<open>
  A runtime whose network answers every request with a given outcome, the answer of the
  inference service that carries a given text in one part, and two uploads.
\<close>

definition stub_runtime :: "fetch_outcome \<Rightarrow> runtime" where
  "stub_runtime outcome =
     \<lparr> fetch = (\<lambda>_. outcome),
       number_to_string = (\<lambda>n. n),
       number_to_json = (\<lambda>n. n),
       syntax_error_message = (\<lambda>_. js ''Unexpected token''),
       type_error_message = (\<lambda>_. js ''not a function'') \<rparr>"

definition gemini_reply :: "jsstring \<Rightarrow> fetch_outcome" where
  \<open>gemini_reply t =
     Responded 200 (BodyText (js ''{"candidates":[{"content":{"parts":[{"text":'' @ QuoteJSONString t @ js ''}]}}]}''))\<close>

definition png_upload :: http_request where
  "png_upload = \<lparr> req_file = Some \<lparr> originalname = js ''r.png'', mimetype = js ''image/png'',
                                       buffer = [0x89, 0x50, 0x4E, 0x47] \<rparr> \<rparr>"


section \<open>Auxiliary notions of the proofs\<close>

text \<open>
  Trimming at the right end only; a suffix that the closing part of the fence pattern
  matches; the result of the pattern after its opening backticks and tag.
\<close>

definition trimR :: "jsstring \<Rightarrow> jsstring" where
  "trimR s = rev (dropWhile isWhiteSpace (rev s))"

definition closes :: "jsstring \<Rightarrow> bool" where
  "closes s \<longleftrightarrow> take 3 (dropWhile isWhiteSpace s) = fence_mark"

definition after_open :: "jsstring \<Rightarrow> jsstring option option" where
  "after_open s =
     (case find_first (dropWhile isWhiteSpace s) fence_mark of
        None \<Rightarrow> None
      | Some q \<Rightarrow> Some (Some (trimR (take q (dropWhile isWhiteSpace s)))))"

text \<open>
  The outermost array or object that a parser state is inside of (True for an object), and
  the token and value that close it.
\<close>

fun frame_is_object :: "frame \<Rightarrow> bool" where
  "frame_is_object (FArray _) = False"
| "frame_is_object (FObject _ _) = True"

fun state_stack :: "pstate \<Rightarrow> frame list" where
  "state_stack (SValue stk) = stk"
| "state_stack (SArrayStart stk) = stk"
| "state_stack (SObjectStart stk) = stk"
| "state_stack (SKey _ stk) = stk"
| "state_stack (SColon _ _ stk) = stk"
| "state_stack (SArrayNext _ stk) = stk"
| "state_stack (SObjectNext _ stk) = stk"
| "state_stack (SDone _) = []"

fun state_kind :: "pstate \<Rightarrow> bool option" where
  "state_kind (SValue _) = None"
| "state_kind (SArrayStart _) = Some False"
| "state_kind (SObjectStart _) = Some True"
| "state_kind (SKey _ _) = Some True"
| "state_kind (SColon _ _ _) = Some True"
| "state_kind (SArrayNext _ _) = Some False"
| "state_kind (SObjectNext _ _) = Some True"
| "state_kind (SDone _) = None"

definition outermost :: "pstate \<Rightarrow> bool option" where
  "outermost st =
     (if state_stack st = [] then state_kind st else Some (frame_is_object (last (state_stack st))))"

definition closed_by :: "bool \<Rightarrow> token \<Rightarrow> json \<Rightarrow> bool" where
  "closed_by b t v \<longleftrightarrow> (if b then (\<exists>ms. v = JObject ms) \<and> t = TRBrace else (\<exists>xs. v = JArray xs))"

section \<open>Termination of the tokenizer\<close>

text \<open>
  Reading a string consumes at least its closing quote, so every recursive call of
  \<open>tokenize\<close> is on a shorter text.
\<close>

lemma lex_string_shorter: "lex_string s acc = Some (str, rest) \<Longrightarrow> length rest < length s"
proof (induction s acc rule: lex_string.induct)
  case (1 acc)
  then show ?case by simp
next
  case (2 c cs acc)
  then show ?case
    by (auto split: if_splits list.splits option.splits) fastforce+
qed

termination tokenize
  by (relation "measure length") (auto dest: lex_string_shorter)

section \<open>The fence pattern finds the first fenced block\<close>

text \<open>
  The result of the backtracking matcher on the fence pattern is computed piece by piece,
  from the closing backticks outwards. Giving back white space or the tag never turns a
  failure into a success, because a backtick is neither white space nor a letter, so the
  first alternative tried is the one that counts. The main result is \<open>regexp_exec_fence\<close>:
  the pattern matches exactly the texts with a fenced block, and its group is the trimmed
  interior of the first one.
\<close>

lemma fence_mark_eq: "fence_mark = [0x60, 0x60, 0x60]"
  by (simp add: fence_mark_def js_def)

lemma not_ws_backtick: "\<not> isWhiteSpace 0x60"
  by (simp add: isWhiteSpace_def)

lemma lit_i_backtick: "lit_i CHR 0x60 c \<longleftrightarrow> c = 0x60"
  by (auto simp: lit_i_def toUpperAscii_def diff_eq_eq)

lemma lit_i_letter:
  "lit_i CHR ''j'' c \<longleftrightarrow> toUpperAscii c = 0x4A"
  "lit_i CHR ''s'' c \<longleftrightarrow> toUpperAscii c = 0x53"
  "lit_i CHR ''o'' c \<longleftrightarrow> toUpperAscii c = 0x4F"
  "lit_i CHR ''n'' c \<longleftrightarrow> toUpperAscii c = 0x4E"
  by (simp_all add: lit_i_def toUpperAscii_def)

lemma rmatch_backticks:
  "rmatch backticks s cap k = (if take 3 s = fence_mark then k (drop 3 s) cap else None)"
  by (auto simp: backticks_def fence_mark_eq lit_i_backtick split: list.splits)

lemma rmatch_json_tag:
  "rmatch json_tag s cap k = (if has_json_tag s then k (drop 4 s) cap else None)"
  by (auto simp: json_tag_def has_json_tag_def lit_i_letter js_def split: list.splits)

lemma length_fence_mark: "length fence_mark = 3"
  by (simp add: fence_mark_eq)

lemma take3_fence_hd: "take 3 (c # cs) = fence_mark \<Longrightarrow> c = 0x60"
  by (simp add: fence_mark_eq)

lemma take3_fence_Nil: "take 3 [] \<noteq> fence_mark"
  by (simp add: fence_mark_eq)

lemma find_first_fence_Nil: "find_first [] fence_mark = None"
  by (simp add: fence_mark_eq)

lemma find_first_fence_Cons:
  "find_first (c # cs) fence_mark =
     (if take 3 (c # cs) = fence_mark then Some 0 else map_option Suc (find_first cs fence_mark))"
  by (simp add: length_fence_mark)

lemma find_first_SomeD:
  "find_first s p = Some q \<Longrightarrow> q \<le> length s \<and> take (length p) (drop q s) = p"
  by (induction s arbitrary: q) (auto split: if_splits)

lemma find_first_fence_SomeD:
  "find_first s fence_mark = Some q \<Longrightarrow> take 3 (drop q s) = fence_mark"
  using find_first_SomeD [of s fence_mark q] by (simp add: length_fence_mark)

lemma find_first_none_step:
  "c \<noteq> 0x60 \<Longrightarrow> find_first (c # cs) fence_mark = map_option Suc (find_first cs fence_mark)"
proof -
  assume "c \<noteq> 0x60"
  then have "take 3 (c # cs) \<noteq> fence_mark" using take3_fence_hd [of c cs] by blast
  then show ?thesis by (simp only: find_first_fence_Cons if_False)
qed

lemma find_first_dropWhile:
  "find_first s fence_mark =
     map_option (\<lambda>q. length (takeWhile isWhiteSpace s) + q) (find_first (dropWhile isWhiteSpace s) fence_mark)"
proof (induction s)
  case Nil
  then show ?case by (simp add: find_first_fence_Nil)
next
  case (Cons c cs)
  show ?case
  proof (cases "isWhiteSpace c")
    case True
    then have "c \<noteq> 0x60" using not_ws_backtick by auto
    then show ?thesis using True Cons
      by (simp add: find_first_none_step option.map_comp comp_def del: find_first.simps)
  next
    case False
    then show ?thesis by (simp add: option.map_ident)
  qed
qed

lemma StarG_keep_none:
  assumes "\<And>c cs. P c \<Longrightarrow> k cs cap = None \<Longrightarrow> k (c # cs) cap = None"
  shows "k (dropWhile P s) cap = None \<Longrightarrow> k s cap = None"
  using assms by (induction s) (auto split: if_splits)

lemma StarG_skip:
  assumes "\<And>c cs. P c \<Longrightarrow> k cs cap = None \<Longrightarrow> k (c # cs) cap = None"
  shows "rmatch (StarG P) s cap k = k (dropWhile P s) cap"
proof (induction s)
  case Nil
  then show ?case by simp
next
  case (Cons c cs)
  show ?case
  proof (cases "P c")
    case True
    show ?thesis
    proof (cases "k (dropWhile P cs) cap")
      case None
      then have "k cs cap = None" using StarG_keep_none [of P k cap cs] assms by blast
      then have "k (c # cs) cap = None" using assms True by blast
      then show ?thesis using True None Cons by simp
    next
      case (Some r)
      then show ?thesis using True Cons by simp
    qed
  next
    case False
    then show ?thesis by simp
  qed
qed

lemma rmatch_tail:
  "rmatch (StarG isWhiteSpace) s cap (\<lambda>s' cap'. rmatch backticks s' cap' k) =
     (if closes s then k (drop 3 (dropWhile isWhiteSpace s)) cap else None)"
proof -
  let ?k = "\<lambda>s' cap'. rmatch backticks s' cap' k"
  have "?k (c # cs) cap = None" if "isWhiteSpace c" for c cs
    using that not_ws_backtick take3_fence_hd [of c cs] by (auto simp: rmatch_backticks)
  then have "rmatch (StarG isWhiteSpace) s cap ?k = ?k (dropWhile isWhiteSpace s) cap"
    by (intro StarG_skip) simp
  then show ?thesis by (simp add: rmatch_backticks closes_def)
qed

lemma closes_find_first:
  "closes s \<Longrightarrow> find_first s fence_mark = Some (length (takeWhile isWhiteSpace s))"
proof -
  assume c: "closes s"
  then have "dropWhile isWhiteSpace s \<noteq> []"
    unfolding closes_def by (metis take3_fence_Nil)
  then obtain d ds where d: "dropWhile isWhiteSpace s = d # ds"
    by (meson neq_Nil_conv)
  have "find_first (d # ds) fence_mark = Some 0"
    using c unfolding closes_def d find_first_fence_Cons by simp
  then have "find_first (dropWhile isWhiteSpace s) fence_mark = Some 0"
    by (simp only: d)
  then show ?thesis by (subst find_first_dropWhile) simp
qed

lemma not_closes_not_prefix:
  "\<not> closes (c # cs) \<Longrightarrow> take 3 (c # cs) \<noteq> fence_mark"
  using not_ws_backtick take3_fence_hd [of c cs] by (auto simp: closes_def)

lemma trimR_Cons:
  "trimR (c # t) = (if isWhiteSpace c \<and> (\<forall>x\<in>set t. isWhiteSpace x) then [] else c # trimR t)"
  by (auto simp: trimR_def dropWhile_append)

lemma trimR_all_ws: "\<forall>x\<in>set t. isWhiteSpace x \<Longrightarrow> trimR t = []"
  by (simp add: trimR_def)

lemma trimR_Nil: "trimR [] = []"
  by (simp add: trimR_def)

lemma trimR_prefix: "take (length (trimR t)) t = trimR t"
  by (induction t) (auto simp: trimR_Cons trimR_Nil)

lemma length_trimR: "length (trimR t) \<le> length t"
  by (simp add: trimR_def) (metis length_dropWhile_le length_rev)

lemma StarL_Nil:
  "rmatch (StarL P) [] cap k = k [] cap"
  by (simp split: option.splits)

lemma StarL_Cons:
  "rmatch (StarL P) (c # cs) cap k =
     (case k (c # cs) cap of
        Some r \<Rightarrow> Some r
      | None \<Rightarrow> if P c then rmatch (StarL P) cs cap k else None)"
  by (simp split: option.splits)

lemma StarL_first_close:
  "rmatch (StarL any_char) s cap (\<lambda>s' _. if closes s' then Some (g s') else None) =
     (case find_first s fence_mark of
        None \<Rightarrow> None
      | Some q \<Rightarrow> Some (g (drop (length (trimR (take q s))) s)))"
proof (induction s)
  case Nil
  have "\<not> closes []" using take3_fence_Nil by (simp add: closes_def)
  then show ?case by (simp add: StarL_Nil find_first_fence_Nil del: find_first.simps rmatch.simps)
next
  case (Cons c cs)
  show ?case
  proof (cases "closes (c # cs)")
    case True
    have "trimR (take (length (takeWhile isWhiteSpace (c # cs))) (c # cs)) = []"
      by (intro trimR_all_ws) (metis takeWhile_eq_take set_takeWhileD)
    then show ?thesis using True closes_find_first [OF True]
      by (simp add: StarL_Cons del: find_first.simps rmatch.simps)
  next
    case False
    have step: "find_first (c # cs) fence_mark = map_option Suc (find_first cs fence_mark)"
      using not_closes_not_prefix [OF False] by (simp add: find_first_fence_Cons del: find_first.simps)
    show ?thesis
    proof (cases "find_first cs fence_mark")
      case None
      then show ?thesis using False Cons step
        by (simp add: any_char_def StarL_Cons del: find_first.simps rmatch.simps)
    next
      case (Some q)
      have nall: "\<not> (isWhiteSpace c \<and> (\<forall>x\<in>set (take q cs). isWhiteSpace x))"
      proof
        assume a: "isWhiteSpace c \<and> (\<forall>x\<in>set (take q cs). isWhiteSpace x)"
        have pre: "take 3 (drop q cs) = fence_mark"
          using find_first_fence_SomeD [OF Some] .
        then have "drop q cs \<noteq> []" by (metis take3_fence_Nil)
        then obtain d ds where d: "drop q cs = d # ds" by (meson neq_Nil_conv)
        with pre have "d = 0x60" using take3_fence_hd [of d ds] by simp
        then have "\<not> isWhiteSpace d" using not_ws_backtick by simp
        have "dropWhile isWhiteSpace cs = dropWhile isWhiteSpace (take q cs @ drop q cs)" by simp
        also have "\<dots> = dropWhile isWhiteSpace (drop q cs)"
          using a by (simp only: dropWhile_append) auto
        also have "\<dots> = drop q cs" using d \<open>\<not> isWhiteSpace d\<close> by simp
        finally have "closes (c # cs)" using a pre by (simp add: closes_def)
        then show False using False by simp
      qed
      then have "trimR (take (Suc q) (c # cs)) = c # trimR (take q cs)"
        by (simp add: trimR_Cons)
      then show ?thesis using False Cons step Some
        by (simp add: any_char_def StarL_Cons del: find_first.simps rmatch.simps)
    qed
  qed
qed

lemma rmatch_group_tail:
  "rmatch (Seq (Group (StarL any_char)) (Seq (StarG isWhiteSpace) backticks)) s cap (\<lambda>_ cap'. Some cap') =
     (case find_first s fence_mark of
        None \<Rightarrow> None
      | Some q \<Rightarrow> Some (Some (trimR (take q s))))"
proof -
  have "rmatch (Seq (Group (StarL any_char)) (Seq (StarG isWhiteSpace) backticks)) s cap (\<lambda>_ cap'. Some cap') =
        rmatch (StarL any_char) s cap
          (\<lambda>s' _. if closes s' then Some (Some (take (length s - length s') s)) else None)"
    by (simp only: rmatch.simps(2,6) rmatch_tail)
  also have "\<dots> = (case find_first s fence_mark of
        None \<Rightarrow> None
      | Some q \<Rightarrow> Some (Some (take (length s - length (drop (length (trimR (take q s))) s)) s)))"
    by (rule StarL_first_close)
  also have "\<dots> = (case find_first s fence_mark of
        None \<Rightarrow> None
      | Some q \<Rightarrow> Some (Some (trimR (take q s))))"
  proof (cases "find_first s fence_mark")
    case None
    then show ?thesis by simp
  next
    case (Some q)
    then have q: "q \<le> length s" using find_first_SomeD by blast
    let ?j = "length (trimR (take q s))"
    have j: "?j \<le> q" using length_trimR [of "take q s"] q by simp
    have "take ?j s = take ?j (take q s)" using j by (simp add: min_def)
    also have "\<dots> = trimR (take q s)" by (rule trimR_prefix)
    finally have "take ?j s = trimR (take q s)" .
    moreover have "length s - length (drop ?j s) = ?j" using j q by simp
    ultimately show ?thesis using Some by simp
  qed
  finally show ?thesis .
qed

lemma rmatch_ws_group_tail:
  "rmatch (Seq (StarG isWhiteSpace) (Seq (Group (StarL any_char)) (Seq (StarG isWhiteSpace) backticks)))
      s cap (\<lambda>_ cap'. Some cap') = after_open s"
proof -
  let ?k = "\<lambda>s' cap'. rmatch (Seq (Group (StarL any_char)) (Seq (StarG isWhiteSpace) backticks)) s' cap'
              (\<lambda>_ cap'. Some cap')"
  have "?k (c # cs) cap = None" if "isWhiteSpace c" "?k cs cap = None" for c cs
  proof -
    have "c \<noteq> 0x60" using that(1) not_ws_backtick by auto
    moreover have "find_first cs fence_mark = None"
      using that(2) by (simp only: rmatch_group_tail split: option.splits) simp
    ultimately have "find_first (c # cs) fence_mark = None"
      using find_first_none_step [of c cs] by (simp del: find_first.simps)
    then show ?thesis
      by (simp only: rmatch_group_tail option.case)
  qed
  then have b: "rmatch (StarG isWhiteSpace) s cap ?k = ?k (dropWhile isWhiteSpace s) cap"
    by (intro StarG_skip) 
  have a: "rmatch (Seq (StarG isWhiteSpace) (Seq (Group (StarL any_char)) (Seq (StarG isWhiteSpace) backticks)))
      s cap (\<lambda>_ cap'. Some cap') = rmatch (StarG isWhiteSpace) s cap ?k"
    by (rule rmatch.simps(2))
  have c: "?k (dropWhile isWhiteSpace s) cap = after_open s"
    by (simp only: rmatch_group_tail after_open_def)
  show ?thesis using a b c by (rule trans [OF trans])
qed

lemma dropWhile_take_dropWhile:
  "dropWhile P (take q (dropWhile P s)) = take q (dropWhile P s)"
proof (cases "dropWhile P s")
  case Nil
  show ?thesis unfolding Nil by simp
next
  case (Cons d ds)
  then have "\<not> P d" using hd_dropWhile [of P s] by (metis list.sel(1) list.simps(3))
  then show ?thesis using Cons by (cases q) simp_all
qed

lemma trim_eq_trimR: "trim s = trimR (dropWhile isWhiteSpace s)"
  by (simp add: trim_def trimR_def)

lemma after_open_alt:
  "after_open s =
     (case find_first s fence_mark of
        None \<Rightarrow> None
      | Some q \<Rightarrow> Some (Some (trim (take q s))))"
proof (cases "find_first (dropWhile isWhiteSpace s) fence_mark")
  case None
  show ?thesis unfolding after_open_def find_first_dropWhile [of s] None by simp
next
  case (Some q)
  let ?A = "takeWhile isWhiteSpace s" and ?B = "dropWhile isWhiteSpace s"
  have "take (length ?A + q) s = take (length ?A + q) (?A @ ?B)" by simp
  also have "\<dots> = ?A @ take q ?B" by (simp only: take_append) simp
  finally have "trim (take (length ?A + q) s) = trimR (dropWhile isWhiteSpace (?A @ take q ?B))"
    by (simp only: trim_eq_trimR)
  also have "dropWhile isWhiteSpace (?A @ take q ?B) = dropWhile isWhiteSpace (take q ?B)"
    by (simp only: dropWhile_append) (auto dest: set_takeWhileD)
  also have "\<dots> = take q ?B" by (rule dropWhile_take_dropWhile)
  finally have "trim (take (length ?A + q) s) = trimR (take q ?B)" .
  then show ?thesis unfolding after_open_def find_first_dropWhile [of s] Some by simp
qed

lemma find_first_fence_drop:
  "find_first s fence_mark = None \<Longrightarrow> find_first (drop n s) fence_mark = None"
proof (induction s arbitrary: n)
  case Nil
  then show ?case by (simp add: find_first_fence_Nil del: find_first.simps)
next
  case (Cons c cs)
  from Cons.prems have "find_first cs fence_mark = None"
    by (simp add: find_first_fence_Cons del: find_first.simps split: if_splits)
  then show ?case using Cons by (cases n) (simp_all del: find_first.simps)
qed

lemma toUpperAscii_backtick: "toUpperAscii 0x60 = 0x60"
  by (simp add: toUpperAscii_def)

lemma has_json_tag_find_first:
  assumes "has_json_tag s" "find_first (drop 4 s) fence_mark = None"
  shows "find_first s fence_mark = None"
proof -
  from assms(1) obtain a b c d r where s: "s = a # b # c # d # r"
    by (auto simp: has_json_tag_def numeral_eq_Suc Suc_le_length_iff)
  from assms(1) have u: "toUpperAscii a = 0x4A" "toUpperAscii b = 0x53"
      "toUpperAscii c = 0x4F" "toUpperAscii d = 0x4E"
    unfolding s by (simp_all add: has_json_tag_def js_def)
  have ne: "a \<noteq> 0x60" "b \<noteq> 0x60" "c \<noteq> 0x60" "d \<noteq> 0x60"
    using u toUpperAscii_backtick by auto
  from assms(2) have "find_first r fence_mark = None" by (simp add: s del: find_first.simps)
  then show ?thesis unfolding s
    by (simp add: find_first_none_step ne del: find_first.simps)
qed

lemma strip_json_tag_find_first:
  "find_first (strip_json_tag s) fence_mark = None \<Longrightarrow> find_first s fence_mark = None"
proof (cases "has_json_tag s")
  case True
  assume "find_first (strip_json_tag s) fence_mark = None"
  then have "find_first (drop 4 s) fence_mark = None"
    using True by (simp add: strip_json_tag_def del: find_first.simps)
  with True show ?thesis by (rule has_json_tag_find_first)
next
  case False
  assume "find_first (strip_json_tag s) fence_mark = None"
  then show ?thesis using False by (simp add: strip_json_tag_def del: find_first.simps)
qed

lemma rmatch_opt_tag:
  "rmatch (Seq (Opt json_tag) (Seq (StarG isWhiteSpace) (Seq (Group (StarL any_char))
       (Seq (StarG isWhiteSpace) backticks)))) s cap (\<lambda>_ cap'. Some cap') =
     after_open (strip_json_tag s)"
proof -
  let ?rest = "Seq (StarG isWhiteSpace) (Seq (Group (StarL any_char)) (Seq (StarG isWhiteSpace) backticks))"
  let ?k = "\<lambda>s' cap'. rmatch ?rest s' cap' (\<lambda>_ cap'. Some cap')"
  have k: "?k s' cap' = after_open s'" for s' cap'
    by (rule rmatch_ws_group_tail)
  have "rmatch (Seq (Opt json_tag) ?rest) s cap (\<lambda>_ cap'. Some cap') =
        (case rmatch json_tag s cap ?k of Some r \<Rightarrow> Some r | None \<Rightarrow> ?k s cap)"
    by (simp only: rmatch.simps(2,3))
  also have "\<dots> = (case (if has_json_tag s then after_open (drop 4 s) else None) of
                      Some r \<Rightarrow> Some r | None \<Rightarrow> after_open s)"
    by (simp only: rmatch_json_tag k)
  also have "\<dots> = after_open (strip_json_tag s)"
  proof (cases "has_json_tag s")
    case False
    then show ?thesis by (simp add: strip_json_tag_def)
  next
    case True
    show ?thesis
    proof (cases "after_open (drop 4 s)")
      case None
      then have "find_first (drop 4 s) fence_mark = None"
        by (simp add: after_open_alt split: option.splits)
      then have "find_first s fence_mark = None"
        using True by (rule has_json_tag_find_first [rotated])
      then have "after_open s = None" by (simp add: after_open_alt)
      then show ?thesis using True None by (simp add: strip_json_tag_def)
    next
      case (Some r)
      then show ?thesis using True by (simp add: strip_json_tag_def)
    qed
  qed
  finally show ?thesis .
qed

lemma rmatch_fence_regex:
  "rmatch fence_regex s cap (\<lambda>_ cap'. Some cap') =
     (if take 3 s = fence_mark then after_open (strip_json_tag (drop 3 s)) else None)"
proof -
  have "rmatch fence_regex s cap (\<lambda>_ cap'. Some cap') =
        rmatch backticks s cap (\<lambda>s' cap'. rmatch (Seq (Opt json_tag) (Seq (StarG isWhiteSpace)
          (Seq (Group (StarL any_char)) (Seq (StarG isWhiteSpace) backticks)))) s' cap' (\<lambda>_ cap'. Some cap'))"
    unfolding fence_regex_def by (rule rmatch.simps(2))
  then show ?thesis by (simp only: rmatch_backticks rmatch_opt_tag)
qed

declare regexp_exec.simps [simp del]

lemma regexp_exec_fence_Nil: "regexp_exec fence_regex [] = None"
  using take3_fence_Nil by (subst regexp_exec.simps) (simp add: rmatch_fence_regex)

lemma regexp_exec_fence_Cons:
  "regexp_exec fence_regex (c # cs) =
     (if take 3 (c # cs) = fence_mark
      then (case after_open (strip_json_tag (drop 3 (c # cs))) of
              Some g \<Rightarrow> Some g
            | None \<Rightarrow> regexp_exec fence_regex cs)
      else regexp_exec fence_regex cs)"
  by (subst regexp_exec.simps) (auto simp: rmatch_fence_regex split: option.splits)

lemma regexp_exec_no_close:
  "find_first (drop 3 s) fence_mark = None \<Longrightarrow> regexp_exec fence_regex s = None"
proof (induction s)
  case Nil
  show ?case by (rule regexp_exec_fence_Nil)
next
  case (Cons c cs)
  have "drop 1 (drop 3 (c # cs)) = drop 3 cs" by (simp add: numeral_3_eq_3)
  moreover have "find_first (drop 1 (drop 3 (c # cs))) fence_mark = None"
    using Cons.prems by (rule find_first_fence_drop)
  ultimately have "find_first (drop 3 cs) fence_mark = None"
    by (simp only:)
  then have ih: "regexp_exec fence_regex cs = None" by (rule Cons.IH)
  have "find_first (strip_json_tag (drop 3 (c # cs))) fence_mark = None"
    using Cons.prems find_first_fence_drop [of "drop 3 (c # cs)" 4]
    by (simp add: strip_json_tag_def del: find_first.simps)
  then have "after_open (strip_json_tag (drop 3 (c # cs))) = None"
    by (simp add: after_open_alt)
  then show ?case using ih by (simp only: regexp_exec_fence_Cons) simp
qed

lemma first_fence_interior_Cons:
  "first_fence_interior (c # cs) =
     (if take 3 (c # cs) = fence_mark
      then (case find_first (strip_json_tag (drop 3 (c # cs))) fence_mark of
              None \<Rightarrow> None
            | Some q \<Rightarrow> Some (take q (strip_json_tag (drop 3 (c # cs)))))
      else first_fence_interior cs)"
proof (cases "take 3 (c # cs) = fence_mark")
  case True
  then have "find_first (c # cs) fence_mark = Some 0"
    unfolding find_first_fence_Cons by simp
  then show ?thesis using True
    by (simp add: first_fence_interior_def Let_def del: find_first.simps split: option.splits)
next
  case False
  then have ff: "find_first (c # cs) fence_mark = map_option Suc (find_first cs fence_mark)"
    unfolding find_first_fence_Cons by simp
  show ?thesis
  proof (cases "find_first cs fence_mark")
    case None
    then show ?thesis using False ff
      by (simp add: first_fence_interior_def del: find_first.simps)
  next
    case (Some i)
    then show ?thesis using False ff
      by (simp add: first_fence_interior_def del: find_first.simps drop_drop)
  qed
qed

lemma regexp_exec_fence:
  "regexp_exec fence_regex s = map_option (\<lambda>b. Some (trim b)) (first_fence_interior s)"
proof (induction s)
  case Nil
  then show ?case
    by (simp add: regexp_exec_fence_Nil first_fence_interior_def find_first_fence_Nil del: find_first.simps)
next
  case (Cons c cs)
  show ?case
  proof (cases "take 3 (c # cs) = fence_mark")
    case False
    then show ?thesis using Cons
      by (simp add: regexp_exec_fence_Cons first_fence_interior_Cons del: find_first.simps)
  next
    case True
    let ?inner = "strip_json_tag (drop 3 (c # cs))"
    show ?thesis
    proof (cases "find_first ?inner fence_mark")
      case None
      then have "find_first (drop 3 (c # cs)) fence_mark = None"
        by (rule strip_json_tag_find_first)
      then have "regexp_exec fence_regex (c # cs) = None" by (rule regexp_exec_no_close)
      then show ?thesis using True None
        by (simp add: first_fence_interior_Cons del: find_first.simps)
    next
      case (Some q)
      then have "after_open ?inner = Some (Some (trim (take q ?inner)))"
        by (simp add: after_open_alt)
      then show ?thesis using True Some
        by (simp add: regexp_exec_fence_Cons first_fence_interior_Cons del: find_first.simps)
    qed
  qed
qed

section \<open>Brace scanning\<close>

lemma find_first_char_None: "find_first s [c] = None \<longleftrightarrow> c \<notin> set s"
  by (induction s) (auto split: if_splits)

lemma find_first_char_iff: "find_first s [c] = Some i \<longleftrightarrow> is_first_index s c i"
proof (induction s arbitrary: i)
  case Nil
  then show ?case by (simp add: is_first_index_def)
next
  case (Cons a s)
  show ?case
  proof (cases "a = c")
    case True
    then show ?thesis by (auto simp: is_first_index_def)
  next
    case False
    have "is_first_index (a # s) c i \<longleftrightarrow> (\<exists>i'. i = Suc i' \<and> is_first_index s c i')"
    proof (cases i)
      case 0
      then show ?thesis using False by (simp add: is_first_index_def)
    next
      case (Suc i')
      then show ?thesis using False
        by (auto simp: is_first_index_def less_Suc_eq_0_disj All_less_Suc2)
    qed
    then show ?thesis using False Cons by auto
  qed
qed

lemma find_last_char_None: "find_last s [c] = None \<longleftrightarrow> c \<notin> set s"
  by (induction s) (auto split: option.splits)

lemma find_last_char_iff: "find_last s [c] = Some j \<longleftrightarrow> is_last_index s c j"
proof (induction s arbitrary: j)
  case Nil
  then show ?case by (simp add: is_last_index_def)
next
  case (Cons a s)
  show ?case
  proof (cases "find_last s [c]")
    case None
    then have notin: "c \<notin> set s" by (simp add: find_last_char_None)
    then have "is_last_index (a # s) c j \<longleftrightarrow> a = c \<and> j = 0"
      by (cases j) (auto simp: is_last_index_def less_Suc_eq_0_disj)
    then show ?thesis using None by auto
  next
    case (Some j')
    then have l: "is_last_index s c j'" using Cons by simp
    have "is_last_index (a # s) c j \<longleftrightarrow> j = Suc j'"
    proof
      assume "j = Suc j'"
      then show "is_last_index (a # s) c j" using l
        by (auto simp: is_last_index_def less_Suc_eq_0_disj)
    next
      assume a: "is_last_index (a # s) c j"
      have "j \<noteq> 0" using a l by (auto simp: is_last_index_def)
      then obtain j0 where j0: "j = Suc j0" by (cases j) auto
      with a have "is_last_index s c j0" by (auto simp: is_last_index_def)
      with l have "j0 = j'" unfolding is_last_index_def by (metis linorder_neqE_nat)
      with j0 show "j = Suc j'" by simp
    qed
    then show ?thesis using Some by auto
  qed
qed

lemma brace_chars: "js ''{'' = [0x7B]" "js ''}'' = [0x7D]"
  by (simp_all add: js_def)

lemma brace_scan_found:
  assumes "is_first_index text 0x7B i" "is_last_index text 0x7D j" "i < j"
  shows "brace_scan text = Some (trim (take (j + 1 - i) (drop i text)))"
proof -
  have f: "find_first text [0x7B] = Some i" using assms(1) by (simp add: find_first_char_iff)
  have l: "find_last text [0x7D] = Some j" using assms(2) by (simp add: find_last_char_iff)
  have len: "j < length text" using assms(2) by (simp add: is_last_index_def)
  have "slice_js text (int i) (int j + 1) = take (j + 1 - i) (drop i text)"
    using len assms(3) by (simp add: slice_js_def Let_def min_def nat_diff_distrib' nat_add_distrib)
  then show ?thesis using assms(3)
    by (simp add: brace_scan_def brace_chars indexOf_def lastIndexOf_def f l Let_def
             del: find_first.simps find_last.simps)
qed

lemma brace_scan_absent:
  assumes "\<nexists>i j. is_first_index text 0x7B i \<and> is_last_index text 0x7D j \<and> i < j"
  shows "brace_scan text = None"
proof (cases "find_first text [0x7B]")
  case None
  then show ?thesis
    by (simp add: brace_scan_def brace_chars indexOf_def del: find_first.simps find_last.simps)
next
  case i: (Some i)
  show ?thesis
  proof (cases "find_last text [0x7D]")
    case None
    then show ?thesis
      by (simp add: brace_scan_def brace_chars lastIndexOf_def Let_def del: find_first.simps find_last.simps)
  next
    case j: (Some j)
    have "\<not> i < j" using assms i j by (auto simp: find_first_char_iff find_last_char_iff)
    then show ?thesis using i j
      by (simp add: brace_scan_def brace_chars indexOf_def lastIndexOf_def Let_def
               del: find_first.simps find_last.simps)
  qed
qed

lemma trim_idem: "trim (trim s) = trim s"
proof -
  let ?d = "dropWhile isWhiteSpace s"
  have "dropWhile isWhiteSpace (trimR ?d) = trimR ?d"
  proof (cases "trimR ?d")
    case Nil
    then show ?thesis by simp
  next
    case (Cons a t)
    then obtain d ds where d: "?d = d # ds" by (cases ?d) (auto simp: trimR_Nil)
    then have nd: "\<not> isWhiteSpace d" using hd_dropWhile [of isWhiteSpace s] by (metis list.sel(1) list.simps(3))
    have "trimR (d # ds) = d # trimR ds" using nd by (simp add: trimR_Cons)
    then show ?thesis using nd d by simp
  qed
  moreover have "trimR (trimR ?d) = trimR ?d"
    by (simp add: trimR_def)
  ultimately show ?thesis by (simp add: trim_eq_trimR)
qed

lemma first_fence_interior_Nil: "first_fence_interior [] = None"
  by (simp add: first_fence_interior_def find_first_fence_Nil del: find_first.simps)

lemma extract_fence_taken:
  assumes "first_fence_interior text = Some interior" "trim interior \<noteq> []"
  shows "extractJsonMaybe text = Some (trim interior)"
proof -
  have "text \<noteq> []" using assms(1) first_fence_interior_Nil by auto
  then show ?thesis using assms
    by (simp add: extractJsonMaybe_def String_match_def regexp_exec_fence truthy_group1_def trim_idem)
qed

lemma extract_fence_empty:
  assumes "first_fence_interior text = Some interior" "trim interior = []"
  shows "extractJsonMaybe text = brace_scan text"
proof -
  have "text \<noteq> []" using assms(1) first_fence_interior_Nil by auto
  then show ?thesis using assms
    by (simp add: extractJsonMaybe_def String_match_def regexp_exec_fence truthy_group1_def)
qed

lemma extract_no_fence:
  assumes "first_fence_interior text = None" "text \<noteq> []"
  shows "extractJsonMaybe text = brace_scan text"
  using assms
  by (simp add: extractJsonMaybe_def String_match_def regexp_exec_fence truthy_group1_def)

lemma trim_nonempty: "\<not> isWhiteSpace c \<Longrightarrow> trim (c # t) \<noteq> []"
  by (simp add: trim_eq_trimR trimR_Cons)

lemma brace_scan_nonempty: "brace_scan text \<noteq> Some []"
proof
  assume a: "brace_scan text = Some []"
  then obtain i j where i: "find_first text [0x7B] = Some i" and j: "find_last text [0x7D] = Some j"
    and ij: "i < j"
    by (auto simp: brace_scan_def brace_chars indexOf_def lastIndexOf_def Let_def
             simp del: find_first.simps find_last.simps split: option.splits if_splits)
  have fi: "is_first_index text 0x7B i" using i by (simp add: find_first_char_iff)
  have lj: "is_last_index text 0x7D j" using j by (simp add: find_last_char_iff)
  have "brace_scan text = Some (trim (take (j + 1 - i) (drop i text)))"
    using fi lj ij by (rule brace_scan_found)
  then have r: "trim (take (j + 1 - i) (drop i text)) = []" using a by simp
  have d: "drop i text = 0x7B # drop (Suc i) text"
    using fi by (metis Cons_nth_drop_Suc is_first_index_def)
  have "take (j + 1 - i) (drop i text) = 0x7B # take (j - i) (drop (Suc i) text)"
    using ij by (simp add: d Suc_diff_le)
  moreover have "\<not> isWhiteSpace 0x7B" by (simp add: isWhiteSpace_def)
  ultimately have "trim (take (j + 1 - i) (drop i text)) \<noteq> []"
    using trim_nonempty by simp
  then show False using r by simp
qed

section \<open>The handler\<close>

lemma extractJsonMaybe_nonempty: "extractJsonMaybe text \<noteq> Some []"
proof (cases "text = []")
  case True
  then show ?thesis by (simp add: extractJsonMaybe_def)
next
  case False
  show ?thesis
  proof (cases "first_fence_interior text")
    case None
    then show ?thesis using False extract_no_fence brace_scan_nonempty by simp
  next
    case (Some interior)
    show ?thesis
    proof (cases "trim interior = []")
      case True
      then show ?thesis using Some extract_fence_empty brace_scan_nonempty by simp
    next
      case False
      then show ?thesis using Some extract_fence_taken by simp
    qed
  qed
qed

lemma parse_input_eq:
  "parse_input rawText = (case extractJsonMaybe rawText of Some cleaned \<Rightarrow> cleaned | None \<Rightarrow> rawText)"
  using extractJsonMaybe_nonempty [of rawText]
  by (auto simp: parse_input_def split: option.splits)

lemma analyze_reply:
  assumes "req_file req = Some f"
    and "callGemini rt key (toBase64 (buffer f)) (mimetype f) (originalname f) = (Inr rawText, calls)"
  shows "analyze rt key req =
           (HttpResponse 200 (JObject [(js ''ok'', JBool True), (js ''data'', parsed_reply rawText)]), calls)"
  using assms by (simp add: analyze_def Let_def)

lemma callGemini_ok:
  assumes "key \<noteq> []"
    and "fetch rt (request_for rt key b m f) = Responded status (BodyText t)"
    and "response_ok status"
    and "JSON_parse t = Some data"
    and "reply_text rt data = Inr raw"
  shows "callGemini rt key b m f = (Inr raw, [request_for rt key b m f])"
  using assms by (simp add: callGemini_def fetch_text_def Let_def)

lemma fetch_stub: "fetch (stub_runtime outcome) r = outcome"
  by (simp add: stub_runtime_def)

lemma callGemini_stub:
  assumes \<open>JSON_parse (js ''{"candidates":[{"content":{"parts":[{"text":'' @ QuoteJSONString t @ js ''}]}}]}'')
             = Some data\<close>
    and "reply_text (stub_runtime (gemini_reply t)) data = Inr raw"
  shows "callGemini (stub_runtime (gemini_reply t)) (js ''k'') b m f =
           (Inr raw, [request_for (stub_runtime (gemini_reply t)) (js ''k'') b m f])"
proof (rule callGemini_ok)
  show "js ''k'' \<noteq> []" by (simp add: js_def)
  show \<open>fetch (stub_runtime (gemini_reply t))
          (request_for (stub_runtime (gemini_reply t)) (js ''k'') b m f) =
        Responded 200 (BodyText (js ''{"candidates":[{"content":{"parts":[{"text":'' @ QuoteJSONString t @ js ''}]}}]}''))\<close>
    by (simp only: fetch_stub gemini_reply_def)
  show "response_ok 200" by (simp add: response_ok_def)
qed (use assms in auto)

lemma png_upload_file:
  "req_file png_upload = Some \<lparr> originalname = js ''r.png'', mimetype = js ''image/png'',
                                 buffer = [0x89, 0x50, 0x4E, 0x47] \<rparr>"
  by (simp add: png_upload_def)


lemma map_text_plain:
  "list_all plain_part ps \<Longrightarrow> map_text rt ps = Inr (map (\<lambda>p. get_property p (js ''text'')) ps)"
  by (induction ps) (auto simp: map_text_def plain_part_def)

lemma join_items_plain:
  "list_all plain_part ps \<Longrightarrow>
     sequence_sum (map (join_item rt \<circ> (\<lambda>p. get_property p (js ''text''))) ps) = Inr (map part_text ps)"
  by (induction ps) (auto simp: join_item_def plain_part_def part_text_def split: option.splits json.splits)

lemma joined_text_plain:
  assumes "candidate_parts data = Some (JArray ps)" and "list_all plain_part ps"
  shows "joined_text rt data = Inr (Some (join [0x0A] (map part_text ps)))"
  using assms by (simp add: joined_text_def map_text_plain join_items_plain)

lemma joined_text_absent:
  assumes "nullish (candidate_parts data)"
  shows "joined_text rt data = Inr None"
  using assms by (auto simp: joined_text_def nullish_def)

lemma callGemini_reply:
  assumes "GOOGLE_API_KEY \<noteq> []"
    and "fetch rt (request_for rt GOOGLE_API_KEY base64 mime filename) = Responded status (BodyText t)"
    and "response_ok status"
    and "JSON_parse t = Some data"
  shows "fst (callGemini rt GOOGLE_API_KEY base64 mime filename) =
           (case reply_text rt data of
              Inl e \<Rightarrow> Inl (Error (js ''Gemini fetch failed: '' @ message e))
            | Inr raw \<Rightarrow> Inr raw)"
  using assms by (simp add: callGemini_def fetch_text_def Let_def split: sum.splits)

section \<open>A parsed object comes from a text with braces\<close>

text \<open>
  Where JSON_parse returns an object, the first token is an opening brace and a closing
  brace follows it, and both stand in the text.
\<close>

lemma outermost_simps:
  "outermost (SValue stk) = (if stk = [] then None else Some (frame_is_object (last stk)))"
  "outermost (SArrayStart stk) = (if stk = [] then Some False else Some (frame_is_object (last stk)))"
  "outermost (SObjectStart stk) = (if stk = [] then Some True else Some (frame_is_object (last stk)))"
  "outermost (SKey ms stk) = (if stk = [] then Some True else Some (frame_is_object (last stk)))"
  "outermost (SColon ms k stk) = (if stk = [] then Some True else Some (frame_is_object (last stk)))"
  "outermost (SArrayNext xs stk) = (if stk = [] then Some False else Some (frame_is_object (last stk)))"
  "outermost (SObjectNext ms stk) = (if stk = [] then Some True else Some (frame_is_object (last stk)))"
  "outermost (SDone v) = None"
  by (simp_all add: outermost_def)

lemma value_done_outer:
  "outermost (value_done v stk) = (if stk = [] then None else Some (frame_is_object (last stk)))"
  by (cases "(v, stk)" rule: value_done.cases) (auto simp: outermost_simps)

lemma accept_value_outer:
  assumes "accept_value stk t = Some st'" "stk \<noteq> []"
  shows "outermost st' = Some (frame_is_object (last stk))"
  using assms by (cases t) (auto simp: value_done_outer outermost_simps)

lemma pstep_outer:
  assumes "pstep st t = Some st'" "outermost st = Some b"
  shows "outermost st' = Some b \<or> (\<exists>v'. st' = SDone v' \<and> closed_by b t v')"
proof (cases st)
  case (SValue stk)
  then have "stk \<noteq> []" using assms(2) by (auto simp: outermost_simps)
  then show ?thesis using assms SValue accept_value_outer [of stk t st']
    by (auto simp: outermost_simps)
next
  case (SArrayStart stk)
  show ?thesis
  proof (cases "t = TRBracket")
    case True
    then show ?thesis using assms SArrayStart
      by (cases "stk = []") (auto simp: outermost_simps closed_by_def value_done_outer)
  next
    case False
    then have a: "accept_value (FArray [] # stk) t = Some st'" using assms SArrayStart by simp
    have "outermost st' = Some (frame_is_object (last (FArray [] # stk)))"
      using a by (rule accept_value_outer) simp
    then show ?thesis using assms(2) SArrayStart by (auto simp: outermost_simps)
  qed
next
  case (SObjectStart stk)
  then show ?thesis using assms
    by (cases t; cases "stk = []") (auto simp: outermost_simps closed_by_def value_done_outer)
next
  case (SKey ms stk)
  then show ?thesis using assms by (cases t) (auto simp: outermost_simps)
next
  case (SColon ms k stk)
  then show ?thesis using assms by (auto simp: outermost_simps split: if_splits)
next
  case (SArrayNext xs stk)
  then show ?thesis using assms
    by (cases t; cases "stk = []") (auto simp: outermost_simps closed_by_def value_done_outer)
next
  case (SObjectNext ms stk)
  then show ?thesis using assms
    by (cases t; cases "stk = []") (auto simp: outermost_simps closed_by_def value_done_outer)
next
  case (SDone v)
  then show ?thesis using assms by simp
qed

lemma prun_Done: "prun (SDone v') ts = Some v \<Longrightarrow> ts = [] \<and> v = v'"
  by (cases ts) auto

lemma prun_outer:
  assumes "prun st ts = Some v" "outermost st = Some b"
  shows "ts \<noteq> [] \<and> closed_by b (last ts) v"
  using assms
proof (induction ts arbitrary: st)
  case Nil
  then show ?case by (cases st) (auto simp: outermost_simps)
next
  case (Cons t ts)
  from Cons.prems(1) obtain st' where s: "pstep st t = Some st'" and r: "prun st' ts = Some v"
    by (auto split: option.splits)
  from pstep_outer [OF s Cons.prems(2)]
  show ?case
  proof
    assume "outermost st' = Some b"
    then have "ts \<noteq> [] \<and> closed_by b (last ts) v" using Cons.IH r by blast
    then show ?thesis by simp
  next
    assume "\<exists>v'. st' = SDone v' \<and> closed_by b t v'"
    then obtain v' where d: "st' = SDone v'" and c: "closed_by b t v'" by blast
    then have "ts = [] \<and> v = v'" using r prun_Done by blast
    then show ?thesis using c by simp
  qed
qed

lemma prun_object:
  assumes "prun (SValue []) ts = Some (JObject ms)"
  shows "\<exists>ts'. ts = TLBrace # ts' \<and> TRBrace \<in> set ts'"
proof (cases ts)
  case Nil
  then show ?thesis using assms by simp
next
  case (Cons t ts')
  from assms Cons obtain st' where s: "accept_value [] t = Some st'" and r: "prun st' ts' = Some (JObject ms)"
    by (auto split: option.splits)
  show ?thesis
  proof (cases t)
    case TLBrace
    then have "outermost st' = Some True" using s by (auto simp: outermost_simps)
    then have "ts' \<noteq> [] \<and> closed_by True (last ts') (JObject ms)" using r prun_outer by blast
    then have "TRBrace \<in> set ts'" by (metis closed_by_def last_in_set)
    then show ?thesis using Cons TLBrace by simp
  next
    case TLBracket
    then have "outermost st' = Some False" using s by (auto simp: outermost_simps)
    then have "closed_by False (last ts') (JObject ms)" using r prun_outer by blast
    then show ?thesis by (simp add: closed_by_def)
  qed (use s r prun_Done in auto)
qed

lemma lex_string_suffix:
  "lex_string s acc = Some (str, rest) \<Longrightarrow> set rest \<subseteq> set s"
proof (induction s acc rule: lex_string.induct)
  case (1 acc)
  then show ?case by simp
next
  case (2 c cs acc)
  show ?case
  proof (cases "c = 0x22")
    case True
    then show ?thesis using 2 by auto
  next
    case nq: False
    show ?thesis
    proof (cases "c = 0x5C")
      case False
      then show ?thesis using 2 nq by (auto split: if_splits)
    next
      case bs: True
      show ?thesis
      proof (cases cs)
        case Nil
        then show ?thesis using 2 nq bs by simp
      next
        case (Cons e es)
        show ?thesis
        proof (cases "e = 0x75")
          case True
          then obtain u where u: "hex4 es = Some u" and r: "lex_string (drop 4 es) (acc @ [u]) = Some (str, rest)"
            using "2.prems" nq bs Cons by (auto split: option.splits)
          have "set rest \<subseteq> set (drop 4 es)" using "2.IH"(1) nq bs Cons True u r by blast
          then show ?thesis using Cons set_drop_subset [of 4 es] by auto
        next
          case False
          then obtain x where x: "unescape e = Some x" and r: "lex_string es (acc @ [x]) = Some (str, rest)"
            using "2.prems" nq bs Cons by (auto split: option.splits)
          have "set rest \<subseteq> set es" using "2.IH"(2) nq bs Cons False x r by blast
          then show ?thesis using Cons by auto
        qed
      qed
    qed
  qed
qed

lemma lex_step:
  assumes "tokenize (c # cs) = Some ts"
  shows "(isJSONWhiteSpace c \<and> tokenize cs = Some ts) \<or>
         (\<exists>t ts' rest. ts = t # ts' \<and> tokenize rest = Some ts' \<and> set rest \<subseteq> set cs \<and>
            length rest \<le> length cs \<and> (t = TRBrace \<longrightarrow> c = 0x7D))"
proof (cases "isJSONWhiteSpace c")
  case True
  then show ?thesis using assms by simp
next
  case ws: False
  have d: "set (drop n cs) \<subseteq> set cs \<and> length (drop n cs) \<le> length cs" for n
    using set_drop_subset [of n cs] by simp
  have z: "set cs \<subseteq> set cs \<and> length cs \<le> length cs" by simp
  show ?thesis
  proof (cases "c = 0x7B \<or> c = 0x7D \<or> c = 0x5B \<or> c = 0x5D \<or> c = 0x3A \<or> c = 0x2C")
    case True
    then obtain t ts' where "ts = t # ts'" "tokenize cs = Some ts'" "t = TRBrace \<longrightarrow> c = 0x7D"
      using assms ws by (auto split: if_splits)
    then show ?thesis using z by blast
  next
    case np: False
    show ?thesis
    proof (cases "c = 0x22")
      case True
      then obtain str rest ts' where l: "lex_string cs [] = Some (str, rest)"
        and r: "tokenize rest = Some ts'" and t: "ts = TString str # ts'"
        using assms ws np by (auto split: option.splits)
      have "set rest \<subseteq> set cs" using l by (rule lex_string_suffix)
      moreover have "length rest \<le> length cs" using lex_string_shorter [OF l] by simp
      ultimately show ?thesis using r t by blast
    next
      case nq: False
      have e: "tokenize (c # cs) =
         (if take 4 (c # cs) = js ''true'' then map_option (Cons TTrue) (tokenize (drop 3 cs))
          else if take 5 (c # cs) = js ''false'' then map_option (Cons TFalse) (tokenize (drop 4 cs))
          else if take 4 (c # cs) = js ''null'' then map_option (Cons TNull) (tokenize (drop 3 cs))
          else (let n = number_length (c # cs)
                in if n = 0 then None
                   else map_option (Cons (TNumber (take n (c # cs)))) (tokenize (drop (n - 1) cs))))"
        using ws np nq by (subst tokenize.simps) simp
      obtain t n ts' where "ts = t # ts'" "tokenize (drop n cs) = Some ts'" "t \<noteq> TRBrace"
        using assms unfolding e by (auto simp: Let_def split: if_splits)
      then show ?thesis using d by blast
    qed
  qed
qed

lemma lex_rbrace:
  "tokenize s = Some ts \<Longrightarrow> TRBrace \<in> set ts \<Longrightarrow> 0x7D \<in> set s"
proof (induction s arbitrary: ts rule: length_induct)
  case (1 s)
  show ?case
  proof (cases s)
    case Nil
    then show ?thesis using 1 by simp
  next
    case (Cons c cs)
    from lex_step [of c cs ts] "1.prems"(1) Cons
    consider "tokenize cs = Some ts"
      | t ts' rest where "ts = t # ts'" "tokenize rest = Some ts'" "set rest \<subseteq> set cs"
          "length rest \<le> length cs" "t = TRBrace \<longrightarrow> c = 0x7D"
      by blast
    then show ?thesis
    proof cases
      case 1
      have "length cs < length s" using Cons by simp
      then have "0x7D \<in> set cs" using "1.IH" 1 "1.prems"(2) by blast
      then show ?thesis using Cons by simp
    next
      case 2
      show ?thesis
      proof (cases "t = TRBrace")
        case True
        then show ?thesis using 2 Cons by simp
      next
        case False
        then have m: "TRBrace \<in> set ts'" using 2 "1.prems"(2) by simp
        have "length rest < length s" using 2(4) Cons by simp
        then have "0x7D \<in> set rest" using "1.IH" 2(2) m by blast
        then show ?thesis using 2(3) Cons by auto
      qed
    qed
  qed
qed

lemma lex_lbrace_first:
  "tokenize s = Some (TLBrace # ts') \<Longrightarrow> \<exists>pre rest. s = pre @ 0x7B # rest \<and> tokenize rest = Some ts'"
proof (induction s)
  case Nil
  then show ?case by simp
next
  case (Cons c cs)
  show ?case
  proof (cases "isJSONWhiteSpace c")
    case True
    then have "tokenize cs = Some (TLBrace # ts')" using Cons.prems by simp
    then obtain pre rest where "cs = pre @ 0x7B # rest" "tokenize rest = Some ts'" using Cons.IH by blast
    then have "c # cs = (c # pre) @ 0x7B # rest \<and> tokenize rest = Some ts'" by simp
    then show ?thesis by blast
  next
    case ws: False
    show ?thesis
    proof (cases "c = 0x7B")
      case True
      then have "tokenize cs = Some ts'" using Cons.prems ws by auto
      then have "c # cs = [] @ 0x7B # cs \<and> tokenize cs = Some ts'" using True by simp
      then show ?thesis by blast
    next
      case False
      then have "False" using Cons.prems ws
        by (auto simp: Let_def split: if_splits option.splits)
      then show ?thesis ..
    qed
  qed
qed

lemma JSON_parse_object_braces:
  assumes "JSON_parse s = Some (JObject ms)"
  shows "\<exists>i j. is_first_index s 0x7B i \<and> is_last_index s 0x7D j \<and> i < j"
proof -
  from assms obtain ts where l: "tokenize s = Some ts" and p: "prun (SValue []) ts = Some (JObject ms)"
    by (auto simp: JSON_parse_def split: option.splits)
  from prun_object [OF p] obtain ts' where t: "ts = TLBrace # ts'" and rb: "TRBrace \<in> set ts'" by blast
  from lex_lbrace_first l t obtain pre rest where s: "s = pre @ 0x7B # rest" and lr: "tokenize rest = Some ts'"
    by blast
  have "0x7D \<in> set rest" using lr rb by (rule lex_rbrace)
  then obtain p where p: "p < length rest" "rest ! p = 0x7D" by (auto simp: in_set_conv_nth)
  have "0x7B \<in> set s" using s by simp
  then obtain i where i: "find_first s [0x7B] = Some i" using find_first_char_None [of s "0x7B"] by auto
  have "0x7D \<in> set s" using s \<open>0x7D \<in> set rest\<close> by simp
  then obtain j where j: "find_last s [0x7D] = Some j" using find_last_char_None [of s "0x7D"] by auto
  have fi: "is_first_index s 0x7B i" using i by (simp add: find_first_char_iff)
  have lj: "is_last_index s 0x7D j" using j by (simp add: find_last_char_iff)
  have "s ! length pre = 0x7B" using s by simp
  then have "i \<le> length pre" using fi unfolding is_first_index_def by (meson not_le_imp_less)
  have q: "s ! (length pre + 1 + p) = 0x7D" using s p by (simp add: nth_append)
  have ql: "length pre + 1 + p < length s" using s p by simp
  have "length pre + 1 + p \<le> j" using lj q ql unfolding is_last_index_def by (meson not_le_imp_less)
  then have "i < j" using \<open>i \<le> length pre\<close> by simp
  then show ?thesis using fi lj by blast
qed

lemma JSON_parse_Nil: "JSON_parse [] = None"
  by (simp add: JSON_parse_def)

section \<open>The properties\<close>

text \<open>
  C1. For every raw reply for which the JSON parse attempt fails (on the extracted candidate
  when there is one, otherwise on the raw reply itself), the handler does not fail the
  request: it responds with status 200 and the envelope whose field \<open>ok\<close> is true and whose
  field \<open>data\<close> is the document of type "other" with title "Analysis", an empty summary and
  the raw reply, unchanged, as notes.
\<close>

theorem analyze_fallback:
  assumes "req_file req = Some f"
    and "callGemini rt key (toBase64 (buffer f)) (mimetype f) (originalname f) = (Inr rawText, calls)"
    and "JSON_parse (case extractJsonMaybe rawText of Some cleaned \<Rightarrow> cleaned | None \<Rightarrow> rawText) = None"
  shows "fst (analyze rt key req) =
           HttpResponse 200
             (JObject [(js ''ok'', JBool True),
                       (js ''data'', JObject [(js ''document_type'', JString (js ''other'')),
                                              (js ''title'', JString (js ''Analysis'')),
                                              (js ''summary'', JString (js '''')),
                                              (js ''notes'', JString rawText)])])"
proof -
  have "parsed_reply rawText = fallback_document rawText"
    using assms(3) by (simp add: parsed_reply_def parse_input_eq)
  then show ?thesis
    using analyze_reply [OF assms(1,2)] by (simp add: fallback_document_def js_def)
qed

theorem analyze_fallback_witness:
  \<open>req_file png_upload = Some \<lparr> originalname = js ''r.png'', mimetype = js ''image/png'',
                                   buffer = [0x89, 0x50, 0x4E, 0x47] \<rparr> \<and>
   fst (callGemini (stub_runtime (gemini_reply (js ''Total due 12.50, thank you''))) (js ''k'')
          (toBase64 [0x89, 0x50, 0x4E, 0x47]) (js ''image/png'') (js ''r.png''))
     = Inr (js ''Total due 12.50, thank you'') \<and>
   extractJsonMaybe (js ''Total due 12.50, thank you'') = None \<and>
   JSON_parse (js ''Total due 12.50, thank you'') = None \<and>
   fst (analyze (stub_runtime (gemini_reply (js ''Total due 12.50, thank you''))) (js ''k'') png_upload) =
     HttpResponse 200
       (JObject [(js ''ok'', JBool True),
                 (js ''data'', JObject [(js ''document_type'', JString (js ''other'')),
                                        (js ''title'', JString (js ''Analysis'')),
                                        (js ''summary'', JString (js '''')),
                                        (js ''notes'', JString (js ''Total due 12.50, thank you''))])])\<close>
proof -
  let ?t = "js ''Total due 12.50, thank you''"
  let ?rt = "stub_runtime (gemini_reply ?t)"
  let ?f = "\<lparr> originalname = js ''r.png'', mimetype = js ''image/png'', buffer = [0x89, 0x50, 0x4E, 0x47] \<rparr>"
  have p: \<open>JSON_parse (js ''{"candidates":[{"content":{"parts":[{"text":'' @ QuoteJSONString ?t @ js ''}]}}]}'')
        = Some (JObject [(js ''candidates'', JArray [JObject [(js ''content'',
             JObject [(js ''parts'', JArray [JObject [(js ''text'', JString ?t)]])])]])])\<close>
    by code_simp
  have r: "reply_text ?rt (JObject [(js ''candidates'', JArray [JObject [(js ''content'',
             JObject [(js ''parts'', JArray [JObject [(js ''text'', JString ?t)]])])]])]) = Inr ?t"
    by code_simp
  have c: "callGemini ?rt (js ''k'') (toBase64 (buffer ?f)) (mimetype ?f) (originalname ?f) =
             (Inr ?t, [request_for ?rt (js ''k'') (toBase64 (buffer ?f)) (mimetype ?f) (originalname ?f)])"
    using p r by (rule callGemini_stub)
  have e: "extractJsonMaybe ?t = None" by code_simp
  have n: "JSON_parse ?t = None" by code_simp
  have n': "JSON_parse (case extractJsonMaybe ?t of Some cleaned \<Rightarrow> cleaned | None \<Rightarrow> ?t) = None"
    using e n by simp
  have c': "fst (callGemini ?rt (js ''k'') (toBase64 [0x89, 0x50, 0x4E, 0x47]) (js ''image/png'') (js ''r.png''))
              = Inr ?t"
    using c by simp
  show ?thesis
    using analyze_fallback [OF png_upload_file c n'] png_upload_file c' e n by blast
qed

text \<open>
  C2. For every non-empty reply text with no fenced block: when the first opening brace
  stands before the last closing brace, extractJsonMaybe returns the trimmed substring from
  the one through the other; when there is no such pair it returns no candidate. On the
  input \<open>Here is data: {"a":1} thanks\<close> it returns \<open>{"a":1}\<close>.
\<close>

theorem extractJsonMaybe_brace_scan:
  assumes "text \<noteq> []" and "first_fence_interior text = None"
  shows \<open>(\<forall>i j. is_first_index text 0x7B i \<and> is_last_index text 0x7D j \<and> i < j \<longrightarrow>
            extractJsonMaybe text = Some (trim (take (j + 1 - i) (drop i text)))) \<and>
         ((\<nexists>i j. is_first_index text 0x7B i \<and> is_last_index text 0x7D j \<and> i < j) \<longrightarrow>
            extractJsonMaybe text = None) \<and>
         extractJsonMaybe (js ''Here is data: {"a":1} thanks'') = Some (js ''{"a":1}'')\<close>
proof -
  have e: "extractJsonMaybe text = brace_scan text"
    using assms(2,1) by (rule extract_no_fence)
  have ex: \<open>extractJsonMaybe (js ''Here is data: {"a":1} thanks'') = Some (js ''{"a":1}'')\<close>
    by code_simp
  show ?thesis using e ex brace_scan_found [of "text"] brace_scan_absent [of "text"] by auto
qed

theorem extractJsonMaybe_brace_scan_witness:
  \<open>js ''Here is data: {"a":1} thanks'' \<noteq> [] \<and>
   first_fence_interior (js ''Here is data: {"a":1} thanks'') = None \<and>
   is_first_index (js ''Here is data: {"a":1} thanks'') 0x7B 14 \<and>
   is_last_index (js ''Here is data: {"a":1} thanks'') 0x7D 20 \<and>
   extractJsonMaybe (js ''Here is data: {"a":1} thanks'') =
     Some (trim (take (20 + 1 - 14) (drop 14 (js ''Here is data: {"a":1} thanks'')))) \<and>
   js ''} reversed {'' \<noteq> [] \<and>
   first_fence_interior (js ''} reversed {'') = None \<and>
   (\<nexists>i j. is_first_index (js ''} reversed {'') 0x7B i \<and> is_last_index (js ''} reversed {'') 0x7D j \<and> i < j) \<and>
   extractJsonMaybe (js ''} reversed {'') = None\<close>
proof -
  let ?a = \<open>js ''Here is data: {"a":1} thanks''\<close> and ?b = \<open>js ''} reversed {''\<close>
  have a1: "?a \<noteq> []" by (simp add: js_def)
  have a2: "first_fence_interior ?a = None" by code_simp
  have a3: "is_first_index ?a 0x7B 14" unfolding find_first_char_iff [symmetric] by code_simp
  have a4: "is_last_index ?a 0x7D 20" unfolding find_last_char_iff [symmetric] by code_simp
  have b1: "?b \<noteq> []" by (simp add: js_def)
  have b2: "first_fence_interior ?b = None" by code_simp
  have b3: "\<nexists>i j. is_first_index ?b 0x7B i \<and> is_last_index ?b 0x7D j \<and> i < j"
  proof
    assume "\<exists>i j. is_first_index ?b 0x7B i \<and> is_last_index ?b 0x7D j \<and> i < j"
    then obtain i j where f: "find_first ?b [0x7B] = Some i" and l: "find_last ?b [0x7D] = Some j"
      and ij: "i < j"
      unfolding find_first_char_iff find_last_char_iff by blast
    have "find_first ?b [0x7B] = Some 11" by code_simp
    moreover have "find_last ?b [0x7D] = Some 0" by code_simp
    ultimately show False using f l ij by simp
  qed
  have lt: "(14::nat) < 20" by simp
  have "\<forall>i j. is_first_index ?a 0x7B i \<and> is_last_index ?a 0x7D j \<and> i < j \<longrightarrow>
          extractJsonMaybe ?a = Some (trim (take (j + 1 - i) (drop i ?a)))"
    using extractJsonMaybe_brace_scan [OF a1 a2] by (rule conjunct1)
  then have a5: "extractJsonMaybe ?a = Some (trim (take (20 + 1 - 14) (drop 14 ?a)))"
    using a3 a4 lt by blast
  have b4: "extractJsonMaybe ?b = None"
    using extractJsonMaybe_brace_scan [OF b1 b2] b3 by blast
  show ?thesis using a1 a2 a3 a4 a5 b1 b2 b3 b4 by blast
qed

text \<open>
  C3, as stated, says that a text with a fenced block always yields the trimmed interior of
  the first block, before any brace scanning. It fails where that interior is white space
  only: the guard of line 79 asks for a non-empty group, and the braces after the block are
  returned instead.
\<close>

theorem fence_priority_counterexample:
  \<open>first_fence_interior (js ''``` ```{"a":1}'') = Some (js '' '') \<and>
   extractJsonMaybe (js ''``` ```{"a":1}'') = Some (js ''{"a":1}'') \<and>
   extractJsonMaybe (js ''``` ```{"a":1}'') \<noteq> Some (trim (js '' ''))\<close>
  by code_simp

text \<open>
  C3, amended. For every reply text with a fenced block whose trimmed interior is not empty,
  extractJsonMaybe returns the trimmed interior of the first fenced block, whatever braces
  stand elsewhere in the text.
\<close>

theorem extractJsonMaybe_fence_priority:
  assumes "first_fence_interior text = Some interior" and "trim interior \<noteq> []"
  shows "extractJsonMaybe text = Some (trim interior)"
  using assms by (rule extract_fence_taken)

theorem extractJsonMaybe_fence_priority_witness:
  \<open>first_fence_interior (js ''x {y} ```json {"a":1} ``` {z}'') = Some (js '' {"a":1} '') \<and>
   trim (js '' {"a":1} '') \<noteq> [] \<and>
   extractJsonMaybe (js ''x {y} ```json {"a":1} ``` {z}'') = Some (js ''{"a":1}'')\<close>
proof -
  have a: \<open>first_fence_interior (js ''x {y} ```json {"a":1} ``` {z}'') = Some (js '' {"a":1} '')\<close>
    by code_simp
  have b: \<open>trim (js '' {"a":1} '') = js ''{"a":1}''\<close> by code_simp
  have c: \<open>trim (js '' {"a":1} '') \<noteq> []\<close> by code_simp
  show ?thesis using extractJsonMaybe_fence_priority [OF a c] a b c by simp
qed

text \<open>
  C4. For every request without an uploaded file, the handler responds with status 400 and
  the body whose field \<open>error\<close> is "No file uploaded", and sends no request to the
  inference service.
\<close>

theorem analyze_no_file:
  assumes "req_file req = None"
  shows "analyze rt key req =
           (HttpResponse 400 (JObject [(js ''error'', JString (js ''No file uploaded''))]), [])"
  using assms by (simp add: analyze_def)

theorem analyze_no_file_witness:
  "req_file \<lparr> req_file = None \<rparr> = None \<and>
   analyze (stub_runtime (gemini_reply (js ''unused''))) (js ''k'') \<lparr> req_file = None \<rparr> =
     (HttpResponse 400 (JObject [(js ''error'', JString (js ''No file uploaded''))]), [])"
proof -
  have a: "req_file \<lparr> req_file = None \<rparr> = None" by simp
  show ?thesis using analyze_no_file [OF a] a by blast
qed

text \<open>
  C5. When GOOGLE_API_KEY is empty, every call of callGemini fails with the error "Missing
  GOOGLE_API_KEY" and no request is sent.
\<close>

theorem callGemini_missing_key:
  assumes "GOOGLE_API_KEY = []"
  shows "callGemini rt GOOGLE_API_KEY base64 mime filename =
           (Inl (Error (js ''Missing GOOGLE_API_KEY'')), [])"
  using assms by (simp add: callGemini_def)

theorem callGemini_missing_key_witness:
  "js '''' = [] \<and>
   callGemini (stub_runtime (gemini_reply (js ''unused''))) (js '''')
       (toBase64 [0x89, 0x50, 0x4E, 0x47]) (js ''image/png'') (js ''r.png'') =
     (Inl (Error (js ''Missing GOOGLE_API_KEY'')), [])"
proof -
  have a: "js '''' = []" by (simp add: js_def)
  show ?thesis using callGemini_missing_key [OF a] a by blast
qed

text \<open>
  C6. For every raw reply whose extracted candidate (or, without a candidate, the raw reply
  itself) parses as JSON, the handler responds with status 200 and the envelope whose
  field \<open>data\<close> is the parsed value. The reply
  \<open>{"document_type":"other","title":"T","summary":"S","notes":"N"}\<close> yields that object.
\<close>

theorem analyze_parsed:
  assumes "req_file req = Some f"
    and "callGemini rt key (toBase64 (buffer f)) (mimetype f) (originalname f) = (Inr rawText, calls)"
    and "JSON_parse (case extractJsonMaybe rawText of Some cleaned \<Rightarrow> cleaned | None \<Rightarrow> rawText) = Some parsed"
  shows \<open>fst (analyze rt key req) =
            HttpResponse 200 (JObject [(js ''ok'', JBool True), (js ''data'', parsed)]) \<and>
         parsed_reply (js ''{"document_type":"other","title":"T","summary":"S","notes":"N"}'') =
            JObject [(js ''document_type'', JString (js ''other'')), (js ''title'', JString (js ''T'')),
                     (js ''summary'', JString (js ''S'')), (js ''notes'', JString (js ''N''))]\<close>
proof -
  have "parsed_reply rawText = parsed"
    using assms(3) by (simp add: parsed_reply_def parse_input_eq)
  then have "fst (analyze rt key req) =
               HttpResponse 200 (JObject [(js ''ok'', JBool True), (js ''data'', parsed)])"
    using analyze_reply [OF assms(1,2)] by simp
  moreover have \<open>parsed_reply (js ''{"document_type":"other","title":"T","summary":"S","notes":"N"}'') =
            JObject [(js ''document_type'', JString (js ''other'')), (js ''title'', JString (js ''T'')),
                     (js ''summary'', JString (js ''S'')), (js ''notes'', JString (js ''N''))]\<close>
    by code_simp
  ultimately show ?thesis by blast
qed

theorem analyze_parsed_witness:
  \<open>req_file png_upload = Some \<lparr> originalname = js ''r.png'', mimetype = js ''image/png'',
                                   buffer = [0x89, 0x50, 0x4E, 0x47] \<rparr> \<and>
   fst (callGemini
          (stub_runtime (gemini_reply (js ''{"document_type":"other","title":"T","summary":"S","notes":"N"}'')))
          (js ''k'') (toBase64 [0x89, 0x50, 0x4E, 0x47]) (js ''image/png'') (js ''r.png''))
     = Inr (js ''{"document_type":"other","title":"T","summary":"S","notes":"N"}'') \<and>
   extractJsonMaybe (js ''{"document_type":"other","title":"T","summary":"S","notes":"N"}'') =
     Some (js ''{"document_type":"other","title":"T","summary":"S","notes":"N"}'') \<and>
   fst (analyze
          (stub_runtime (gemini_reply (js ''{"document_type":"other","title":"T","summary":"S","notes":"N"}'')))
          (js ''k'') png_upload) =
     HttpResponse 200
       (JObject [(js ''ok'', JBool True),
                 (js ''data'', JObject [(js ''document_type'', JString (js ''other'')),
                                        (js ''title'', JString (js ''T'')),
                                        (js ''summary'', JString (js ''S'')),
                                        (js ''notes'', JString (js ''N''))])])\<close>
proof -
  let ?t = \<open>js ''{"document_type":"other","title":"T","summary":"S","notes":"N"}''\<close>
  let ?rt = "stub_runtime (gemini_reply ?t)"
  let ?f = "\<lparr> originalname = js ''r.png'', mimetype = js ''image/png'', buffer = [0x89, 0x50, 0x4E, 0x47] \<rparr>"
  let ?doc = "JObject [(js ''document_type'', JString (js ''other'')), (js ''title'', JString (js ''T'')),
                       (js ''summary'', JString (js ''S'')), (js ''notes'', JString (js ''N''))]"
  have p: \<open>JSON_parse (js ''{"candidates":[{"content":{"parts":[{"text":'' @ QuoteJSONString ?t @ js ''}]}}]}'')
        = Some (JObject [(js ''candidates'', JArray [JObject [(js ''content'',
             JObject [(js ''parts'', JArray [JObject [(js ''text'', JString ?t)]])])]])])\<close>
    by code_simp
  have r: "reply_text ?rt (JObject [(js ''candidates'', JArray [JObject [(js ''content'',
             JObject [(js ''parts'', JArray [JObject [(js ''text'', JString ?t)]])])]])]) = Inr ?t"
    by code_simp
  have c: "callGemini ?rt (js ''k'') (toBase64 (buffer ?f)) (mimetype ?f) (originalname ?f) =
             (Inr ?t, [request_for ?rt (js ''k'') (toBase64 (buffer ?f)) (mimetype ?f) (originalname ?f)])"
    using p r by (rule callGemini_stub)
  have e: "extractJsonMaybe ?t = Some ?t" by code_simp
  have n: "JSON_parse ?t = Some ?doc" by code_simp
  have n': "JSON_parse (case extractJsonMaybe ?t of Some cleaned \<Rightarrow> cleaned | None \<Rightarrow> ?t) = Some ?doc"
    using e n by simp
  have c': "fst (callGemini ?rt (js ''k'') (toBase64 [0x89, 0x50, 0x4E, 0x47]) (js ''image/png'') (js ''r.png''))
              = Inr ?t"
    using c by simp
  have "fst (analyze ?rt (js ''k'') png_upload) =
          HttpResponse 200 (JObject [(js ''ok'', JBool True), (js ''data'', ?doc)])"
    using analyze_parsed [OF png_upload_file c n'] by (rule conjunct1)
  then show ?thesis using png_upload_file c' e by blast
qed

text \<open>
  C7, as stated, says that the reply text is the join by line feeds of the text segments of
  the first candidate's content parts, and the serialised response when there is no
  segment. It fails at a part without text between two parts with text (the code leaves an
  empty line for it), and at two parts without text (the code returns a single line feed
  and not the serialised response).
\<close>

theorem callGemini_reply_text_counterexample:
  \<open>JSON_parse (js ''{"candidates":[{"content":{"parts":[{"text":"a"},{"inline_data":{}},{"text":"b"}]}}]}'') =
     Some (JObject [(js ''candidates'', JArray [JObject [(js ''content'', JObject [(js ''parts'',
        JArray [JObject [(js ''text'', JString (js ''a''))], JObject [(js ''inline_data'', JObject [])],
                JObject [(js ''text'', JString (js ''b''))]])])]])]) \<and>
   fst (callGemini
     (stub_runtime (Responded 200 (BodyText
        (js ''{"candidates":[{"content":{"parts":[{"text":"a"},{"inline_data":{}},{"text":"b"}]}}]}''))))
     (js ''k'') (toBase64 [0x89, 0x50, 0x4E, 0x47]) (js ''image/png'') (js ''r.png''))
     = Inr (js ''a'' @ [0x0A, 0x0A] @ js ''b'') \<and>
   spec_reply_text
     (stub_runtime (Responded 200 (BodyText
        (js ''{"candidates":[{"content":{"parts":[{"text":"a"},{"inline_data":{}},{"text":"b"}]}}]}''))))
     (JObject [(js ''candidates'', JArray [JObject [(js ''content'', JObject [(js ''parts'',
        JArray [JObject [(js ''text'', JString (js ''a''))], JObject [(js ''inline_data'', JObject [])],
                JObject [(js ''text'', JString (js ''b''))]])])]])])
     = js ''a'' @ [0x0A] @ js ''b'' \<and>
   JSON_parse (js ''{"candidates":[{"content":{"parts":[{"a":1},{"b":2}]}}]}'') =
     Some (JObject [(js ''candidates'', JArray [JObject [(js ''content'', JObject [(js ''parts'',
        JArray [JObject [(js ''a'', JNumber (js ''1''))], JObject [(js ''b'', JNumber (js ''2''))]])])]])]) \<and>
   fst (callGemini
     (stub_runtime (Responded 200 (BodyText (js ''{"candidates":[{"content":{"parts":[{"a":1},{"b":2}]}}]}''))))
     (js ''k'') (toBase64 [0x89, 0x50, 0x4E, 0x47]) (js ''image/png'') (js ''r.png''))
     = Inr [0x0A] \<and>
   spec_reply_text
     (stub_runtime (Responded 200 (BodyText (js ''{"candidates":[{"content":{"parts":[{"a":1},{"b":2}]}}]}''))))
     (JObject [(js ''candidates'', JArray [JObject [(js ''content'', JObject [(js ''parts'',
        JArray [JObject [(js ''a'', JNumber (js ''1''))], JObject [(js ''b'', JNumber (js ''2''))]])])]])])
     = js ''{"candidates":[{"content":{"parts":[{"a":1},{"b":2}]}}]}''\<close>
proof -
  let ?b1 = \<open>js ''{"candidates":[{"content":{"parts":[{"text":"a"},{"inline_data":{}},{"text":"b"}]}}]}''\<close>
  let ?d1 = "JObject [(js ''candidates'', JArray [JObject [(js ''content'', JObject [(js ''parts'',
        JArray [JObject [(js ''text'', JString (js ''a''))], JObject [(js ''inline_data'', JObject [])],
                JObject [(js ''text'', JString (js ''b''))]])])]])]"
  let ?b2 = \<open>js ''{"candidates":[{"content":{"parts":[{"a":1},{"b":2}]}}]}''\<close>
  let ?d2 = "JObject [(js ''candidates'', JArray [JObject [(js ''content'', JObject [(js ''parts'',
        JArray [JObject [(js ''a'', JNumber (js ''1''))], JObject [(js ''b'', JNumber (js ''2''))]])])]])]"
  let ?rt1 = "stub_runtime (Responded 200 (BodyText ?b1))"
  let ?rt2 = "stub_runtime (Responded 200 (BodyText ?b2))"
  have k: "js ''k'' \<noteq> []" by (simp add: js_def)
  have ok: "response_ok 200" by (simp add: response_ok_def)
  have p1: "JSON_parse ?b1 = Some ?d1" by code_simp
  have r1: "reply_text ?rt1 ?d1 = Inr (js ''a'' @ [0x0A, 0x0A] @ js ''b'')" by code_simp
  have s1: "spec_reply_text ?rt1 ?d1 = js ''a'' @ [0x0A] @ js ''b''" by code_simp
  have p2: "JSON_parse ?b2 = Some ?d2" by code_simp
  have r2: "reply_text ?rt2 ?d2 = Inr [0x0A]" by code_simp
  have s2: "spec_reply_text ?rt2 ?d2 = ?b2" by code_simp
  have c1: "fst (callGemini ?rt1 (js ''k'') (toBase64 [0x89, 0x50, 0x4E, 0x47]) (js ''image/png'') (js ''r.png''))
              = Inr (js ''a'' @ [0x0A, 0x0A] @ js ''b'')"
    using callGemini_ok [OF k fetch_stub ok p1 r1] by simp
  have c2: "fst (callGemini ?rt2 (js ''k'') (toBase64 [0x89, 0x50, 0x4E, 0x47]) (js ''image/png'') (js ''r.png''))
              = Inr [0x0A]"
    using callGemini_ok [OF k fetch_stub ok p2 r2] by simp
  show ?thesis using p1 c1 s1 p2 c2 s2 by blast
qed

text \<open>
  C7, amended. For every response with a status from 200 to 299 whose body is JSON: when
  the first candidate's content parts are undefined or null, callGemini returns the
  serialised response; when they are an array of parts that are not null and whose text is
  a string or absent, it returns the join by line feeds of one entry for each part (its
  text, or the empty string), unless that join is empty, in which case it returns the
  serialised response.
\<close>

theorem callGemini_reply_text:
  assumes "GOOGLE_API_KEY \<noteq> []"
    and "fetch rt (request_for rt GOOGLE_API_KEY base64 mime filename) = Responded status (BodyText t)"
    and "response_ok status"
    and "JSON_parse t = Some data"
  shows "(nullish (candidate_parts data) \<longrightarrow>
            fst (callGemini rt GOOGLE_API_KEY base64 mime filename) = Inr (JSON_stringify rt data)) \<and>
         (\<forall>ps. candidate_parts data = Some (JArray ps) \<and> list_all plain_part ps \<longrightarrow>
            fst (callGemini rt GOOGLE_API_KEY base64 mime filename) =
              Inr (if join [0x0A] (map part_text ps) \<noteq> [] then join [0x0A] (map part_text ps)
                   else JSON_stringify rt data))"
proof -
  have c: "fst (callGemini rt GOOGLE_API_KEY base64 mime filename) =
           (case reply_text rt data of
              Inl e \<Rightarrow> Inl (Error (js ''Gemini fetch failed: '' @ message e))
            | Inr raw \<Rightarrow> Inr raw)"
    using assms by (rule callGemini_reply)
  show ?thesis
    unfolding c by (auto simp: reply_text_def joined_text_plain joined_text_absent)
qed

theorem callGemini_reply_text_witness:
  \<open>js ''k'' \<noteq> [] \<and> response_ok 200 \<and>
   fetch (stub_runtime (Responded 200 (BodyText
            (js ''{"candidates":[{"content":{"parts":[{"text":"a"},{"inline_data":{}},{"text":"b"}]}}]}''))))
     (request_for (stub_runtime (Responded 200 (BodyText
            (js ''{"candidates":[{"content":{"parts":[{"text":"a"},{"inline_data":{}},{"text":"b"}]}}]}''))))
        (js ''k'') (toBase64 [0x89, 0x50, 0x4E, 0x47]) (js ''image/png'') (js ''r.png''))
     = Responded 200 (BodyText
            (js ''{"candidates":[{"content":{"parts":[{"text":"a"},{"inline_data":{}},{"text":"b"}]}}]}'')) \<and>
   JSON_parse (js ''{"candidates":[{"content":{"parts":[{"text":"a"},{"inline_data":{}},{"text":"b"}]}}]}'') =
     Some (JObject [(js ''candidates'', JArray [JObject [(js ''content'', JObject [(js ''parts'',
        JArray [JObject [(js ''text'', JString (js ''a''))], JObject [(js ''inline_data'', JObject [])],
                JObject [(js ''text'', JString (js ''b''))]])])]])]) \<and>
   candidate_parts (JObject [(js ''candidates'', JArray [JObject [(js ''content'', JObject [(js ''parts'',
        JArray [JObject [(js ''text'', JString (js ''a''))], JObject [(js ''inline_data'', JObject [])],
                JObject [(js ''text'', JString (js ''b''))]])])]])]) =
     Some (JArray [JObject [(js ''text'', JString (js ''a''))], JObject [(js ''inline_data'', JObject [])],
                   JObject [(js ''text'', JString (js ''b''))]]) \<and>
   list_all plain_part [JObject [(js ''text'', JString (js ''a''))], JObject [(js ''inline_data'', JObject [])],
                        JObject [(js ''text'', JString (js ''b''))]] \<and>
   fst (callGemini
     (stub_runtime (Responded 200 (BodyText
        (js ''{"candidates":[{"content":{"parts":[{"text":"a"},{"inline_data":{}},{"text":"b"}]}}]}''))))
     (js ''k'') (toBase64 [0x89, 0x50, 0x4E, 0x47]) (js ''image/png'') (js ''r.png''))
     = Inr (js ''a'' @ [0x0A, 0x0A] @ js ''b'') \<and>
   JSON_parse (js ''{"promptFeedback": {"blockReason": "SAFETY"}}'') =
     Some (JObject [(js ''promptFeedback'', JObject [(js ''blockReason'', JString (js ''SAFETY''))])]) \<and>
   nullish (candidate_parts
     (JObject [(js ''promptFeedback'', JObject [(js ''blockReason'', JString (js ''SAFETY''))])])) \<and>
   fst (callGemini
     (stub_runtime (Responded 200 (BodyText (js ''{"promptFeedback": {"blockReason": "SAFETY"}}''))))
     (js ''k'') (toBase64 [0x89, 0x50, 0x4E, 0x47]) (js ''image/png'') (js ''r.png''))
     = Inr (js ''{"promptFeedback":{"blockReason":"SAFETY"}}'')\<close>
proof -
  let ?b1 = \<open>js ''{"candidates":[{"content":{"parts":[{"text":"a"},{"inline_data":{}},{"text":"b"}]}}]}''\<close>
  let ?ps = "[JObject [(js ''text'', JString (js ''a''))], JObject [(js ''inline_data'', JObject [])],
              JObject [(js ''text'', JString (js ''b''))]]"
  let ?d1 = "JObject [(js ''candidates'', JArray [JObject [(js ''content'', JObject [(js ''parts'',
        JArray ?ps)])]])]"
  let ?b3 = \<open>js ''{"promptFeedback": {"blockReason": "SAFETY"}}''\<close>
  let ?d3 = "JObject [(js ''promptFeedback'', JObject [(js ''blockReason'', JString (js ''SAFETY''))])]"
  let ?rt1 = "stub_runtime (Responded 200 (BodyText ?b1))"
  let ?rt3 = "stub_runtime (Responded 200 (BodyText ?b3))"
  let ?b = "toBase64 [0x89, 0x50, 0x4E, 0x47]"
  have k: "js ''k'' \<noteq> []" by (simp add: js_def)
  have ok: "response_ok 200" by (simp add: response_ok_def)
  have f1: "fetch ?rt1 (request_for ?rt1 (js ''k'') ?b (js ''image/png'') (js ''r.png'')) =
              Responded 200 (BodyText ?b1)"
    by (rule fetch_stub)
  have f3: "fetch ?rt3 (request_for ?rt3 (js ''k'') ?b (js ''image/png'') (js ''r.png'')) =
              Responded 200 (BodyText ?b3)"
    by (rule fetch_stub)
  have p1: "JSON_parse ?b1 = Some ?d1" by code_simp
  have p3: "JSON_parse ?b3 = Some ?d3" by code_simp
  have cp: "candidate_parts ?d1 = Some (JArray ?ps)" by code_simp
  have pl: "list_all plain_part ?ps" by code_simp
  have nl: "nullish (candidate_parts ?d3)" by code_simp
  have j1: "(if join [0x0A] (map part_text ?ps) \<noteq> [] then join [0x0A] (map part_text ?ps)
             else JSON_stringify ?rt1 ?d1) = js ''a'' @ [0x0A, 0x0A] @ js ''b''"
    by code_simp
  have j3: \<open>JSON_stringify ?rt3 ?d3 = js ''{"promptFeedback":{"blockReason":"SAFETY"}}''\<close> by code_simp
  have "\<forall>ps. candidate_parts ?d1 = Some (JArray ps) \<and> list_all plain_part ps \<longrightarrow>
          fst (callGemini ?rt1 (js ''k'') ?b (js ''image/png'') (js ''r.png'')) =
            Inr (if join [0x0A] (map part_text ps) \<noteq> [] then join [0x0A] (map part_text ps)
                 else JSON_stringify ?rt1 ?d1)"
    using callGemini_reply_text [OF k f1 ok p1] by (rule conjunct2)
  then have "fst (callGemini ?rt1 (js ''k'') ?b (js ''image/png'') (js ''r.png'')) =
            Inr (if join [0x0A] (map part_text ?ps) \<noteq> [] then join [0x0A] (map part_text ?ps)
                 else JSON_stringify ?rt1 ?d1)"
    using cp pl by blast
  then have c1: "fst (callGemini ?rt1 (js ''k'') ?b (js ''image/png'') (js ''r.png'')) =
            Inr (js ''a'' @ [0x0A, 0x0A] @ js ''b'')"
    unfolding j1 .
  have "nullish (candidate_parts ?d3) \<longrightarrow>
          fst (callGemini ?rt3 (js ''k'') ?b (js ''image/png'') (js ''r.png'')) = Inr (JSON_stringify ?rt3 ?d3)"
    using callGemini_reply_text [OF k f3 ok p3] by (rule conjunct1)
  then have "fst (callGemini ?rt3 (js ''k'') ?b (js ''image/png'') (js ''r.png'')) = Inr (JSON_stringify ?rt3 ?d3)"
    using nl by blast
  then have c3: \<open>fst (callGemini ?rt3 (js ''k'') ?b (js ''image/png'') (js ''r.png'')) =
                  Inr (js ''{"promptFeedback":{"blockReason":"SAFETY"}}'')\<close>
    unfolding j3 .
  show ?thesis using k ok f1 p1 cp pl c1 p3 nl c3 by blast
qed



text \<open>
  C9. For every reply text whose first fenced block has an empty or white space interior,
  extractJsonMaybe does not return that empty interior: it returns what brace scanning
  over the whole text returns, and no candidate when the text has no opening brace before
  a closing one.
\<close>

theorem extractJsonMaybe_empty_fence:
  assumes "first_fence_interior text = Some interior" and "trim interior = []"
  shows "extractJsonMaybe text = brace_scan text \<and>
         extractJsonMaybe text \<noteq> Some (trim interior) \<and>
         ((\<nexists>i j. is_first_index text 0x7B i \<and> is_last_index text 0x7D j \<and> i < j) \<longrightarrow>
            extractJsonMaybe text = None)"
proof -
  have e: "extractJsonMaybe text = brace_scan text"
    using assms by (rule extract_fence_empty)
  show ?thesis using e assms(2) brace_scan_nonempty [of "text"] brace_scan_absent [of "text"] by auto
qed

theorem extractJsonMaybe_empty_fence_witness:
  \<open>first_fence_interior (js ''```json   ``` then {"b":2} x'') = Some (js ''   '') \<and>
   trim (js ''   '') = [] \<and>
   extractJsonMaybe (js ''```json   ``` then {"b":2} x'') = Some (js ''{"b":2}'') \<and>
   first_fence_interior (js ''``````'') = Some [] \<and>
   (\<nexists>i j. is_first_index (js ''``````'') 0x7B i \<and> is_last_index (js ''``````'') 0x7D j \<and> i < j) \<and>
   extractJsonMaybe (js ''``````'') = None\<close>
proof -
  let ?a = \<open>js ''```json   ``` then {"b":2} x''\<close> and ?b = \<open>js ''``````''\<close>
  have a1: "first_fence_interior ?a = Some (js ''   '')" by code_simp
  have a2: "trim (js ''   '') = []" by code_simp
  have a3: \<open>brace_scan ?a = Some (js ''{"b":2}'')\<close> by code_simp
  have b1: "first_fence_interior ?b = Some []" by code_simp
  have b2: "trim [] = []" by code_simp
  have b3: "\<nexists>i j. is_first_index ?b 0x7B i \<and> is_last_index ?b 0x7D j \<and> i < j"
  proof
    assume "\<exists>i j. is_first_index ?b 0x7B i \<and> is_last_index ?b 0x7D j \<and> i < j"
    then obtain i where f: "find_first ?b [0x7B] = Some i"
      unfolding find_first_char_iff by blast
    have "find_first ?b [0x7B] = None" by code_simp
    then show False using f by simp
  qed
  have "extractJsonMaybe ?a = brace_scan ?a"
    using extractJsonMaybe_empty_fence [OF a1 a2] by (rule conjunct1)
  then have a4: \<open>extractJsonMaybe ?a = Some (js ''{"b":2}'')\<close> using a3 by simp
  have b4: "extractJsonMaybe ?b = None"
    using extractJsonMaybe_empty_fence [OF b1 b2] b3 by blast
  show ?thesis using a1 a2 a4 b1 b3 b4 by blast
qed

text \<open>
  C10. For every raw reply with no fenced block and no opening brace before a closing one
  that is itself JSON, extraction yields no candidate and the handler returns the parsed
  value as \<open>data\<close>. That value is not an object, hence neither of the two documented
  shapes and not the fallback document. The texts \<open>123\<close>, \<open>[1,2]\<close> and \<open>"receipt"\<close> are
  such replies.
\<close>

theorem analyze_bare_json:
  assumes "req_file req = Some f"
    and "callGemini rt key (toBase64 (buffer f)) (mimetype f) (originalname f) = (Inr rawText, calls)"
    and "first_fence_interior rawText = None"
    and "\<nexists>i j. is_first_index rawText 0x7B i \<and> is_last_index rawText 0x7D j \<and> i < j"
    and "JSON_parse rawText = Some v"
  shows \<open>extractJsonMaybe rawText = None \<and>
         fst (analyze rt key req) = HttpResponse 200 (JObject [(js ''ok'', JBool True), (js ''data'', v)]) \<and>
         (\<forall>ms. v \<noteq> JObject ms) \<and>
         v \<noteq> fallback_document rawText \<and>
         JSON_parse (js ''123'') = Some (JNumber (js ''123'')) \<and>
         JSON_parse (js ''[1,2]'') = Some (JArray [JNumber (js ''1''), JNumber (js ''2'')]) \<and>
         JSON_parse (js ''"receipt"'') = Some (JString (js ''receipt''))\<close>
proof -
  have ne: "rawText \<noteq> []" using assms(5) JSON_parse_Nil by auto
  have e: "extractJsonMaybe rawText = None"
    using extract_no_fence [OF assms(3) ne] brace_scan_absent [OF assms(4)] by simp
  then have "parsed_reply rawText = v"
    using assms(5) by (simp add: parsed_reply_def parse_input_def)
  then have a: "fst (analyze rt key req) =
                  HttpResponse 200 (JObject [(js ''ok'', JBool True), (js ''data'', v)])"
    using analyze_reply [OF assms(1,2)] by simp
  have o: "\<forall>ms. v \<noteq> JObject ms"
    using assms(4,5) JSON_parse_object_braces [of rawText] by blast
  then have f: "v \<noteq> fallback_document rawText" by (simp add: fallback_document_def)
  have x1: "JSON_parse (js ''123'') = Some (JNumber (js ''123''))" by code_simp
  have x2: "JSON_parse (js ''[1,2]'') = Some (JArray [JNumber (js ''1''), JNumber (js ''2'')])" by code_simp
  have x3: \<open>JSON_parse (js ''"receipt"'') = Some (JString (js ''receipt''))\<close> by code_simp
  show ?thesis using e a o f x1 x2 x3 by blast
qed

theorem analyze_bare_json_witness:
  \<open>req_file png_upload = Some \<lparr> originalname = js ''r.png'', mimetype = js ''image/png'',
                                   buffer = [0x89, 0x50, 0x4E, 0x47] \<rparr> \<and>
   fst (callGemini (stub_runtime (gemini_reply (js ''[1,2]''))) (js ''k'')
          (toBase64 [0x89, 0x50, 0x4E, 0x47]) (js ''image/png'') (js ''r.png'')) = Inr (js ''[1,2]'') \<and>
   first_fence_interior (js ''[1,2]'') = None \<and>
   (\<nexists>i j. is_first_index (js ''[1,2]'') 0x7B i \<and> is_last_index (js ''[1,2]'') 0x7D j \<and> i < j) \<and>
   JSON_parse (js ''[1,2]'') = Some (JArray [JNumber (js ''1''), JNumber (js ''2'')]) \<and>
   extractJsonMaybe (js ''[1,2]'') = None \<and>
   fst (analyze (stub_runtime (gemini_reply (js ''[1,2]''))) (js ''k'') png_upload) =
     HttpResponse 200 (JObject [(js ''ok'', JBool True),
                                (js ''data'', JArray [JNumber (js ''1''), JNumber (js ''2'')])])\<close>
proof -
  let ?t = "js ''[1,2]''"
  let ?rt = "stub_runtime (gemini_reply ?t)"
  let ?f = "\<lparr> originalname = js ''r.png'', mimetype = js ''image/png'', buffer = [0x89, 0x50, 0x4E, 0x47] \<rparr>"
  let ?v = "JArray [JNumber (js ''1''), JNumber (js ''2'')]"
  have p: \<open>JSON_parse (js ''{"candidates":[{"content":{"parts":[{"text":'' @ QuoteJSONString ?t @ js ''}]}}]}'')
        = Some (JObject [(js ''candidates'', JArray [JObject [(js ''content'',
             JObject [(js ''parts'', JArray [JObject [(js ''text'', JString ?t)]])])]])])\<close>
    by code_simp
  have r: "reply_text ?rt (JObject [(js ''candidates'', JArray [JObject [(js ''content'',
             JObject [(js ''parts'', JArray [JObject [(js ''text'', JString ?t)]])])]])]) = Inr ?t"
    by code_simp
  have c: "callGemini ?rt (js ''k'') (toBase64 (buffer ?f)) (mimetype ?f) (originalname ?f) =
             (Inr ?t, [request_for ?rt (js ''k'') (toBase64 (buffer ?f)) (mimetype ?f) (originalname ?f)])"
    using p r by (rule callGemini_stub)
  have c': "fst (callGemini ?rt (js ''k'') (toBase64 [0x89, 0x50, 0x4E, 0x47]) (js ''image/png'') (js ''r.png''))
              = Inr ?t"
    using c by simp
  have nf: "first_fence_interior ?t = None" by code_simp
  have nb: "\<nexists>i j. is_first_index ?t 0x7B i \<and> is_last_index ?t 0x7D j \<and> i < j"
  proof
    assume "\<exists>i j. is_first_index ?t 0x7B i \<and> is_last_index ?t 0x7D j \<and> i < j"
    then obtain i where f: "find_first ?t [0x7B] = Some i"
      unfolding find_first_char_iff by blast
    have "find_first ?t [0x7B] = None" by code_simp
    then show False using f by simp
  qed
  have pv: "JSON_parse ?t = Some ?v" by code_simp
  have "extractJsonMaybe ?t = None \<and>
        fst (analyze ?rt (js ''k'') png_upload) =
          HttpResponse 200 (JObject [(js ''ok'', JBool True), (js ''data'', ?v)])"
    using analyze_bare_json [OF png_upload_file c nf nb pv] by blast
  then show ?thesis using png_upload_file c' nf nb pv by blast
qed

end
